theory Spec2Isabelle
  imports Main
begin

text \<open>
  npm-cache keeps the directory a package manager installs into as a compressed archive,
  filed under the manager's name, its version and a hash of its config file. This theory
  models \<^verbatim>\<open>CacheDependencyManager\<close> (cacheDependencyManagers/baseCacheDependencyManager.js)
  and the call that index.js makes to it, as functions that take the state of the world
  and return it changed, and proves what its operations do to the file system, to the
  locks and to their callbacks.
\<close>

section \<open>JavaScript values\<close>

text \<open>
  The values that flow through the callbacks of baseCacheDependencyManager.js:
  \<open>null\<close>, \<open>undefined\<close>, strings (the error messages the manager builds itself),
  error objects handed back by the libraries, and functions. A function value is opaque:
  it is known by a number, and calling it is the observable outcome of an operation.
\<close>

datatype jsval = Null | Undefined | Str string | ErrorObj string | Fun nat

text \<open>JavaScript truthiness, as tested by \<^verbatim>\<open>if (err)\<close>.\<close>

fun truthy :: "jsval \<Rightarrow> bool" where
  "truthy Null = False"
| "truthy Undefined = False"
| "truthy (Str s) = (s \<noteq> [])"
| "truthy (ErrorObj m) = True"
| "truthy (Fun k) = True"

text \<open>String conversion, as done by \<^verbatim>\<open>'...' + err\<close>.\<close>

fun to_string :: "jsval \<Rightarrow> string" where
  "to_string Null = ''null''"
| "to_string Undefined = ''undefined''"
| "to_string (Str s) = s"
| "to_string (ErrorObj m) = ''Error: '' @ m"
| "to_string (Fun k) = ''function () { [native code] }''"


text \<open>\<^verbatim>\<open>String.prototype.trim\<close> on the ASCII white space characters.\<close>

definition is_space :: "char \<Rightarrow> bool" where
  "is_space c = (c \<in> set [CHR '' '', CHR 0x09, CHR 0x0A, CHR 0x0B, CHR 0x0C, CHR 0x0D])"

definition trim :: "string \<Rightarrow> string" where
  "trim s = rev (dropWhile is_space (rev (dropWhile is_space s)))"


section \<open>Paths: Node's \<^verbatim>\<open>path.resolve\<close> (POSIX)\<close>

text \<open>\<^verbatim>\<open>s.split('/')\<close> and \<^verbatim>\<open>parts.join('/')\<close>.\<close>

fun split_slash :: "string \<Rightarrow> string list" where
  "split_slash [] = [[]]"
| "split_slash (c # cs) =
     (if c = CHR ''/'' then [] # split_slash cs
      else (case split_slash cs of
              [] \<Rightarrow> [[c]]
            | p # ps \<Rightarrow> (c # p) # ps))"

fun join_slash :: "string list \<Rightarrow> string" where
  "join_slash [] = []"
| "join_slash [p] = p"
| "join_slash (p # q # ps) = p @ ''/'' @ join_slash (q # ps)"

text \<open>
  \<^verbatim>\<open>normalizeArray(parts, allowAboveRoot)\<close>: the parts are visited from the last to the
  first; \<open>up\<close> counts the pending \<open>..\<close> segments. The pair returned for a list is the
  parts kept and the value of \<open>up\<close> after visiting it.
\<close>

fun normalize_up :: "string list \<Rightarrow> nat \<Rightarrow> string list \<times> nat" where
  "normalize_up [] up = ([], up)"
| "normalize_up (p # ps) up =
     (case normalize_up ps up of
        (kept, up') \<Rightarrow>
          if p = ''.'' then (kept, up')
          else if p = ''..'' then (kept, Suc up')
          else if 0 < up' then (kept, up' - 1)
          else (p # kept, up'))"

definition normalizeArray :: "string list \<Rightarrow> bool \<Rightarrow> string list" where
  "normalizeArray parts allowAboveRoot =
     (case normalize_up parts 0 of
        (kept, up) \<Rightarrow> if allowAboveRoot then replicate up ''..'' @ kept else kept)"

text \<open>
  The loop of \<^verbatim>\<open>path.resolve\<close>: the arguments are taken from the last to the first,
  then the working directory, until an absolute one is met; empty ones are skipped. The
  list given here is already in that order.
\<close>

fun resolve_loop :: "string list \<Rightarrow> string \<Rightarrow> string \<times> bool" where
  "resolve_loop [] resolvedPath = (resolvedPath, False)"
| "resolve_loop (p # ps) resolvedPath =
     (if p = [] then resolve_loop ps resolvedPath
      else if hd p = CHR ''/'' then (p @ ''/'' @ resolvedPath, True)
      else resolve_loop ps (p @ ''/'' @ resolvedPath))"

definition path_resolve :: "string \<Rightarrow> string list \<Rightarrow> string" where
  "path_resolve cwd args =
     (case resolve_loop (rev args @ [cwd]) [] of
        (resolvedPath, resolvedAbsolute) \<Rightarrow>
          let parts = normalizeArray (filter (\<lambda>p. p \<noteq> []) (split_slash resolvedPath))
                        (\<not> resolvedAbsolute);
              r = (if resolvedAbsolute then ''/'' else []) @ join_slash parts
          in if r = [] then ''.'' else r)"

text \<open>The non-empty parts of a path, as \<^verbatim>\<open>path.resolve\<close> filters them.\<close>

definition segments :: "string \<Rightarrow> string list" where
  "segments s = filter (\<lambda>p. p \<noteq> []) (split_slash s)"

text \<open>
  A name that \<^verbatim>\<open>path.resolve\<close> leaves alone: not empty, neither \<open>.\<close> nor \<open>..\<close>, with
  no separator. A normalised absolute path: a separator followed by such names, with
  separators between them.
\<close>

definition plain_name :: "string \<Rightarrow> bool" where
  "plain_name p = (p \<noteq> [] \<and> p \<noteq> ''.'' \<and> p \<noteq> ''..'' \<and> CHR ''/'' \<notin> set p)"

definition normalized_absolute :: "string \<Rightarrow> bool" where
  "normalized_absolute p =
     (case p of
        [] \<Rightarrow> False
      | c # rest \<Rightarrow> c = CHR ''/'' \<and> rest \<noteq> [] \<and> list_all plain_name (split_slash rest))"


section \<open>The world: file system, descriptors, locks, subprocesses\<close>

datatype node = File string | Dir

type_synonym filesystem = "string \<Rightarrow> node option"

datatype lock_op = LockEx | LockSh | LockUn

datatype event =
    Exec string
  | EnsureFile string
  | OpenWrite string
  | OpenRead string
  | Flock nat lock_op
  | Compress string string
  | Rename string string
  | RemoveTree string
  | Decompress string string

datatype log_line = Info string | Error string

text \<open>
  \<open>fs\<close> maps a normalised absolute path to what is there. \<open>fds\<close> lists the paths opened
  so far (a descriptor is an index into it; the manager never closes one). \<open>locks\<close> are
  the advisory locks held through these descriptors. \<open>trace\<close> records, in order, every
  call that acts on the file system, a lock or a subprocess. \<open>console\<close> is what the logger
  printed.
\<close>

record world =
  fs :: filesystem
  cwd :: string
  fds :: "string list"
  locks :: "(nat \<times> lock_op) list"
  trace :: "event list"
  console :: "log_line list"

text \<open>
  The world is that of one pipeline: a lock held by another process, and the wait for it,
  are outside the model. An asynchronous call hands its error to its callback; a
  synchronous call of a library succeeds, except that opening a missing file for reading
  throws. A function that ends by calling its callback once is modelled as returning what
  the callback receives.
\<close>

text \<open>
  What the libraries and the operating system decide, and the program cannot: whether the
  tool is on the search path, what a subprocess does and how it exits, what the compressor
  and the decompressor produce and whether they fail, whether a rename or an asynchronous
  lock call fails. Every theorem below holds for every such environment.
\<close>

record env =
  which_sync :: "string \<Rightarrow> bool"
  shell_exec :: "string \<Rightarrow> filesystem \<Rightarrow> int \<times> filesystem"
  targz_compress :: "string \<Rightarrow> filesystem \<Rightarrow> string option \<times> string"
  rename_error :: "string \<Rightarrow> string \<Rightarrow> filesystem \<Rightarrow> string option"
  flock_error :: "nat \<Rightarrow> lock_op \<Rightarrow> string option"
  decompress_run :: "node option \<Rightarrow> string option \<times> (string \<times> node) list"

datatype exn = NotAFunction jsval | ENOENT string

definition abs_path :: "world \<Rightarrow> string \<Rightarrow> string" where
  "abs_path w p = path_resolve (cwd w) [p]"

definition add_event :: "event \<Rightarrow> world \<Rightarrow> world" where
  "add_event e w = w\<lparr>trace := trace w @ [e]\<rparr>"

text \<open>\<^verbatim>\<open>fs.existsSync(p)\<close>.\<close>

definition existsSync :: "world \<Rightarrow> string \<Rightarrow> bool" where
  "existsSync w p = (fs w (abs_path w p) \<noteq> None)"

text \<open>The proper ancestors of a normalised absolute path, the root left out.\<close>

definition ancestors :: "string \<Rightarrow> string list" where
  "ancestors p = map (\<lambda>i. take i p) (filter (\<lambda>i. p ! i = CHR ''/'') [1..<length p])"

definition mkdirs :: "string list \<Rightarrow> filesystem \<Rightarrow> filesystem" where
  "mkdirs ds f = foldl (\<lambda>g d. if g d = None then g(d \<mapsto> Dir) else g) f ds"

text \<open>
  \<^verbatim>\<open>fs.ensureFileSync(p)\<close> of fs-extra: nothing when the path exists; otherwise the
  missing directories above it are made and an empty file is written.
\<close>

definition ensureFileSync :: "string \<Rightarrow> world \<Rightarrow> world" where
  "ensureFileSync p w =
     (let a = abs_path w p;
          f = (if fs w a \<noteq> None then fs w else (mkdirs (ancestors a) (fs w))(a \<mapsto> File []))
      in add_event (EnsureFile p) (w\<lparr>fs := f\<rparr>))"

text \<open>\<^verbatim>\<open>fs.openSync(p, 'w')\<close>: the file is created or truncated; the new descriptor is returned.\<close>

definition openSync_w :: "string \<Rightarrow> world \<Rightarrow> nat \<times> world" where
  "openSync_w p w =
     (length (fds w),
      add_event (OpenWrite p) (w\<lparr>fs := (fs w)(abs_path w p \<mapsto> File []), fds := fds w @ [p]\<rparr>))"

text \<open>\<^verbatim>\<open>fs.openSync(p, 'r')\<close>: throws when nothing is at the path.\<close>

definition openSync_r :: "string \<Rightarrow> world \<Rightarrow> (exn + nat) \<times> world" where
  "openSync_r p w =
     (if fs w (abs_path w p) = None then (Inl (ENOENT p), add_event (OpenRead p) w)
      else (Inr (length (fds w)), add_event (OpenRead p) (w\<lparr>fds := fds w @ [p]\<rparr>)))"

text \<open>
  The locks of one descriptor: \<^verbatim>\<open>flock\<close> replaces the lock the descriptor holds, and
  \<^verbatim>\<open>'un'\<close> drops it. Waiting for another holder is not modelled: the world is that of
  one pipeline.
\<close>

definition set_lock :: "nat \<Rightarrow> lock_op \<Rightarrow> (nat \<times> lock_op) list \<Rightarrow> (nat \<times> lock_op) list" where
  "set_lock fd m ls =
     (let others = filter (\<lambda>l. fst l \<noteq> fd) ls
      in if m = LockUn then others else others @ [(fd, m)])"

text \<open>\<^verbatim>\<open>fsExt.flockSync(fd, mode)\<close>.\<close>

definition flockSync :: "nat \<Rightarrow> lock_op \<Rightarrow> world \<Rightarrow> world" where
  "flockSync fd m w = add_event (Flock fd m) (w\<lparr>locks := set_lock fd m (locks w)\<rparr>)"

text \<open>\<^verbatim>\<open>fsExt.flock(fd, mode, cb)\<close>: the value is what \<open>cb\<close> receives.\<close>

definition flock :: "env \<Rightarrow> nat \<Rightarrow> lock_op \<Rightarrow> world \<Rightarrow> jsval \<times> world" where
  "flock env fd m w =
     (case flock_error env fd m of
        Some msg \<Rightarrow> (ErrorObj msg, add_event (Flock fd m) w)
      | None \<Rightarrow> (Null, add_event (Flock fd m) (w\<lparr>locks := set_lock fd m (locks w)\<rparr>)))"

text \<open>\<^verbatim>\<open>fs.rename(a, b, cb)\<close>.\<close>

definition rename :: "env \<Rightarrow> string \<Rightarrow> string \<Rightarrow> world \<Rightarrow> jsval \<times> world" where
  "rename env a b w =
     (case rename_error env a b (fs w) of
        Some msg \<Rightarrow> (ErrorObj msg, add_event (Rename a b) w)
      | None \<Rightarrow>
          (Null, add_event (Rename a b)
             (w\<lparr>fs := (fs w)(abs_path w b := fs w (abs_path w a), abs_path w a := None)\<rparr>)))"

text \<open>A path is under a directory when it is the directory or lies below it.\<close>

definition path_under :: "string \<Rightarrow> string \<Rightarrow> bool" where
  "path_under d p =
     (let d' = (if d = ''/'' then d else d @ ''/'')
      in p = d \<or> take (length d') p = d')"

text \<open>\<^verbatim>\<open>fs.removeSync(d)\<close> of fs-extra: the whole tree goes.\<close>

definition removeSync :: "string \<Rightarrow> world \<Rightarrow> world" where
  "removeSync d w =
     add_event (RemoveTree d)
       (w\<lparr>fs := (\<lambda>p. if path_under (abs_path w d) p then None else fs w p)\<rparr>)"

text \<open>
  \<^verbatim>\<open>new targz().compress(src, dst, cb)\<close>: the bytes the compressor wrote are at \<open>dst\<close>
  whether it failed or not; the value is the message of the error, if any.
\<close>

definition compress :: "env \<Rightarrow> string \<Rightarrow> string \<Rightarrow> world \<Rightarrow> string option \<times> world" where
  "compress env src dst w =
     (case targz_compress env src (fs w) of
        (err, bytes) \<Rightarrow>
          (err, add_event (Compress src dst) (w\<lparr>fs := (fs w)(abs_path w dst \<mapsto> File bytes)\<rparr>)))"

text \<open>
  \<^verbatim>\<open>new Decompress().src(src).dest(dst).use(Decompress.targz()).run(cb)\<close>: the entries
  the decompressor got out of the archive, all of them or those before the failure, are
  written below \<open>dst\<close>, a later entry over an earlier one.
\<close>

definition write_entries :: "string \<Rightarrow> (string \<times> node) list \<Rightarrow> filesystem \<Rightarrow> filesystem" where
  "write_entries dst es f = foldl (\<lambda>g e. g(dst @ ''/'' @ fst e \<mapsto> snd e)) f es"

definition decompress :: "env \<Rightarrow> string \<Rightarrow> string \<Rightarrow> world \<Rightarrow> jsval \<times> world" where
  "decompress env src dst w =
     (case decompress_run env (fs w (abs_path w src)) of
        (err, es) \<Rightarrow>
          ((case err of Some msg \<Rightarrow> ErrorObj msg | None \<Rightarrow> Null),
           add_event (Decompress src dst) (w\<lparr>fs := write_entries dst es (fs w)\<rparr>)))"

text \<open>\<^verbatim>\<open>shell.exec(cmd).code\<close>: the subprocess may change any file.\<close>

definition exec :: "env \<Rightarrow> string \<Rightarrow> world \<Rightarrow> int \<times> world" where
  "exec env cmd w =
     (case shell_exec env cmd (fs w) of
        (code, f) \<Rightarrow> (code, add_event (Exec cmd) (w\<lparr>fs := f\<rparr>)))"

text \<open>
  \<^verbatim>\<open>async.series(tasks, callback)\<close>: the tasks run in order; the first one that hands a
  truthy error to its \<open>cb\<close> ends the series, and the tasks after it never run. The value is
  what \<open>callback\<close> receives as its error.
\<close>

fun series :: "(world \<Rightarrow> jsval \<times> world) list \<Rightarrow> world \<Rightarrow> jsval \<times> world" where
  "series [] w = (Null, w)"
| "series (t # ts) w =
     (case t w of (err, w') \<Rightarrow> if truthy err then (err, w') else series ts w')"

text \<open>\<^verbatim>\<open>logger.logInfo\<close> and \<^verbatim>\<open>logger.logError\<close> (util/logger): a line on the console.\<close>

definition logInfo :: "string \<Rightarrow> world \<Rightarrow> world" where
  "logInfo message w = w\<lparr>console := console w @ [Info message]\<rparr>"

definition logError :: "string \<Rightarrow> world \<Rightarrow> world" where
  "logError message w = w\<lparr>console := console w @ [Error message]\<rparr>"


section \<open>CacheDependencyManager\<close>

record config =
  cliName :: string
  installCommand :: string
  installOptions :: string
  installDirectory :: string
  configPath :: string
  cacheDirectory :: string
  forceRefresh :: bool
  getFileHash :: "string \<Rightarrow> string"
  getCliVersion :: "unit \<Rightarrow> string"

definition getAbsolutePath :: "world \<Rightarrow> string \<Rightarrow> string" where
  "getAbsolutePath w relativePath = path_resolve (cwd w) [cwd w, relativePath]"

definition cacheLogInfo :: "config \<Rightarrow> string \<Rightarrow> world \<Rightarrow> world" where
  "cacheLogInfo cfg message w = logInfo (''['' @ cliName cfg @ ''] '' @ message) w"

definition cacheLogError :: "config \<Rightarrow> string \<Rightarrow> world \<Rightarrow> world" where
  "cacheLogError cfg error w = logError (''['' @ cliName cfg @ ''] '' @ error) w"

text \<open>\<^verbatim>\<open>installDependencies\<close>: the value is the \<open>error\<close> it returns.\<close>

definition installDependencies :: "env \<Rightarrow> config \<Rightarrow> world \<Rightarrow> jsval \<times> world" where
  "installDependencies env cfg w =
     (let installCommand' = trim (installCommand cfg @ '' '' @ installOptions cfg);
          w1 = cacheLogInfo cfg (''running ['' @ installCommand' @ '']...'') w
      in case exec env installCommand' w1 of
           (code, w2) \<Rightarrow>
             if code \<noteq> 0 then
               (let error = ''error running '' @ installCommand cfg
                in (Str error, cacheLogError cfg error w2))
             else
               (Null, cacheLogInfo cfg
                  (''installed '' @ cliName cfg @ '' dependencies, now archiving'') w2))"

text \<open>
  The three tasks that \<^verbatim>\<open>archiveDependencies\<close> hands to \<^verbatim>\<open>async.series\<close>.
\<close>

definition compressTask :: "env \<Rightarrow> config \<Rightarrow> string \<Rightarrow> string \<Rightarrow> world \<Rightarrow> jsval \<times> world" where
  "compressTask env cfg installedDirectory tmpCachePath w =
     (case compress env installedDirectory tmpCachePath w of
        (Some message, w') \<Rightarrow>
          (let error = ''error tar-ing '' @ installedDirectory @ '': '' @ message
           in (Str error, cacheLogError cfg error w'))
      | (None, w') \<Rightarrow> (Null, cacheLogInfo cfg ''installed and archived dependencies'' w'))"

text \<open>
  The temporary file is made sure to exist, opened for writing and locked exclusively
  (\<^verbatim>\<open>ensureFileSync\<close>, \<^verbatim>\<open>openSync\<close>, \<^verbatim>\<open>flockSync\<close> in \<^verbatim>\<open>archiveDependencies\<close>);
  the value is the descriptor.
\<close>

definition lockTmpFile :: "string \<Rightarrow> world \<Rightarrow> nat \<times> world" where
  "lockTmpFile tmpCachePath w =
     (let w2 = ensureFileSync tmpCachePath w
      in case openSync_w tmpCachePath w2 of
           (fd, w3) \<Rightarrow> (fd, flockSync fd LockEx w3))"

text \<open>
  \<^verbatim>\<open>archiveDependencies(cacheDirectory, cachePath, callback)\<close>: the value is what
  \<open>callback\<close> receives (\<open>undefined\<close> for \<^verbatim>\<open>callback()\<close>).
\<close>

definition archiveDependencies ::
  "env \<Rightarrow> config \<Rightarrow> string \<Rightarrow> string \<Rightarrow> world \<Rightarrow> jsval \<times> world" where
  "archiveDependencies env cfg cacheDirectory' cachePath w =
     (let installedDirectory = getAbsolutePath w (installDirectory cfg);
          w1 = cacheLogInfo cfg (''archiving dependencies from '' @ installedDirectory) w
      in if \<not> existsSync w1 installedDirectory then
           (Undefined,
            cacheLogInfo cfg ''skipping archive. Install directory does not exist.'' w1)
         else
           (let tmpCachePath = cachePath @ ''~''
            in case lockTmpFile tmpCachePath w1 of
                 (fd, w4) \<Rightarrow>
                   if existsSync w4 cachePath then
                     (Undefined,
                      cacheLogInfo cfg
                        ''skipping archive because target cache file already exists.'' w4)
                   else
                     series
                       [compressTask env cfg installedDirectory tmpCachePath,
                        rename env tmpCachePath cachePath,
                        flock env fd LockUn] w4))"

text \<open>
  \<^verbatim>\<open>extractDependencies(cachePath, callback)\<close>: either \<open>callback\<close> receives a value,
  or \<^verbatim>\<open>fs.openSync\<close> throws and \<open>callback\<close> is never called.
\<close>

datatype completion = CallbackWith jsval | Thrown exn

definition extractDependencies :: "env \<Rightarrow> config \<Rightarrow> string \<Rightarrow> world \<Rightarrow> completion \<times> world" where
  "extractDependencies env cfg cachePath w =
     (let installDirectory' = getAbsolutePath w (installDirectory cfg);
          w1 = cacheLogInfo cfg (''clearing installed dependencies at '' @ installDirectory') w;
          w2 = removeSync installDirectory' w1;
          w3 = cacheLogInfo cfg ''...cleared'' w2;
          w4 = cacheLogInfo cfg (''extracting dependencies from '' @ cachePath) w3
      in case openSync_r cachePath w4 of
           (Inl e, w5) \<Rightarrow> (Thrown e, w5)
         | (Inr fd, w5) \<Rightarrow>
             (case series
                     [flock env fd LockSh,
                      decompress env cachePath (cwd w5),
                      flock env fd LockUn] w5 of
                (err, w6) \<Rightarrow>
                  if truthy err then
                    (CallbackWith err,
                     cacheLogError cfg (''Error extracting '' @ cachePath @ '': '' @ to_string err) w6)
                  else (CallbackWith err, cacheLogInfo cfg ''done extracting'' w6)))"

text \<open>The cache location computed by \<^verbatim>\<open>loadDependencies\<close>.\<close>

definition resolveCacheDirectory :: "config \<Rightarrow> world \<Rightarrow> string" where
  "resolveCacheDirectory cfg w =
     path_resolve (cwd w) [cacheDirectory cfg, cliName cfg, getCliVersion cfg ()]"

definition resolveCachePath :: "config \<Rightarrow> world \<Rightarrow> string" where
  "resolveCachePath cfg w =
     (let hash = getFileHash cfg (configPath cfg)
      in path_resolve (cwd w) [resolveCacheDirectory cfg w, hash @ ''.tar.gz''])"

text \<open>
  Calling the value bound to \<open>callback\<close>: a function is called with the argument; anything
  else makes the call throw a \<^verbatim>\<open>TypeError\<close>.
\<close>

datatype outcome = Called nat jsval | Uncaught exn

definition invoke :: "jsval \<Rightarrow> jsval \<Rightarrow> world \<Rightarrow> outcome \<times> world" where
  "invoke callback a w =
     (case callback of
        Fun k \<Rightarrow> (Called k a, w)
      | _ \<Rightarrow> (Uncaught (NotAFunction callback), w))"

definition loadDependencies :: "env \<Rightarrow> config \<Rightarrow> jsval \<Rightarrow> world \<Rightarrow> outcome \<times> world" where
  "loadDependencies env cfg callback w =
     (if \<not> existsSync w (configPath cfg) then
        invoke callback Null
          (cacheLogInfo cfg
             (''Dependency config file '' @ configPath cfg @ '' does not exist. Skipping install'') w)
      else
        (let w1 = cacheLogInfo cfg ''config file exists'' w
         in if \<not> which_sync env (cliName cfg) then
              (let error = ''Command line tool '' @ cliName cfg @ '' not installed''
               in invoke callback (Str error) (cacheLogError cfg error w1))
            else
              (let w2 = cacheLogInfo cfg ''cli exists'' w1;
                   hash = getFileHash cfg (configPath cfg);
                   w3 = cacheLogInfo cfg (''hash of '' @ configPath cfg @ '': '' @ hash) w2;
                   cacheDirectory' = resolveCacheDirectory cfg w3;
                   cachePath = resolveCachePath cfg w3
               in if \<not> forceRefresh cfg \<and> existsSync w3 cachePath then
                    (case extractDependencies env cfg cachePath
                            (cacheLogInfo cfg ''cache exists'' w3) of
                       (Thrown e, w4) \<Rightarrow> (Uncaught e, w4)
                     | (CallbackWith extractErr, w4) \<Rightarrow>
                         invoke callback (if truthy extractErr then extractErr else Null) w4)
                  else
                    (case installDependencies env cfg w3 of
                       (error, w4) \<Rightarrow>
                         if error \<noteq> Null then invoke callback error w4
                         else
                           (case archiveDependencies env cfg cacheDirectory' cachePath w4 of
                              (archiveError, w5) \<Rightarrow>
                                invoke callback
                                  (if truthy archiveError then archiveError else error) w5)))))"


section \<open>The command-line entry point (index.js)\<close>



section \<open>The calls an operation makes\<close>

text \<open>
  The calls of the archive writer and of the archive reader, in the order in which the
  source makes them; a run makes an initial part of its list. \<open>w\<close> is the world in which
  the operation starts: the descriptor it opens is the next free one.
\<close>

definition archive_calls :: "config \<Rightarrow> string \<Rightarrow> world \<Rightarrow> event list" where
  "archive_calls cfg cachePath w =
     [EnsureFile (cachePath @ ''~''), OpenWrite (cachePath @ ''~''),
      Flock (length (fds w)) LockEx,
      Compress (getAbsolutePath w (installDirectory cfg)) (cachePath @ ''~''),
      Rename (cachePath @ ''~'') cachePath,
      Flock (length (fds w)) LockUn]"

definition extract_calls :: "config \<Rightarrow> string \<Rightarrow> world \<Rightarrow> event list" where
  "extract_calls cfg cachePath w =
     [RemoveTree (getAbsolutePath w (installDirectory cfg)), OpenRead cachePath,
      Flock (length (fds w)) LockSh, Decompress cachePath (cwd w),
      Flock (length (fds w)) LockUn]"

text \<open>Two worlds that differ in nothing but what the logger printed.\<close>

definition same_but_console :: "world \<Rightarrow> world \<Rightarrow> bool" where
  "same_but_console w w' =
     (fs w' = fs w \<and> cwd w' = cwd w \<and> fds w' = fds w \<and> locks w' = locks w
      \<and> trace w' = trace w)"


section \<open>A concrete run\<close>

text \<open>
  A project in \<open>/w\<close> with a \<open>package.json\<close>, the cache kept in \<open>/c\<close>, and an environment
  in which every call succeeds: the install command makes \<open>node_modules\<close>, and the
  archive holds what the install command made.
\<close>

definition exampleConfig :: config where
  "exampleConfig =
     \<lparr>cliName = ''npm'', installCommand = ''npm install'', installOptions = '''',
      installDirectory = ''node_modules'', configPath = ''package.json'',
      cacheDirectory = ''/c'', forceRefresh = False,
      getFileHash = (\<lambda>p. ''abc123''), getCliVersion = (\<lambda>u. ''10.0.0'')\<rparr>"

definition exampleEnv :: env where
  "exampleEnv =
     \<lparr>which_sync = (\<lambda>n. True),
      shell_exec = (\<lambda>cmd f. (0, f(''/w/node_modules'' \<mapsto> Dir,
                                     ''/w/node_modules/a.js'' \<mapsto> File ''A''))),
      targz_compress = (\<lambda>src f. (None, ''TGZ'')),
      rename_error = (\<lambda>a b f. None),
      flock_error = (\<lambda>fd m. None),
      decompress_run = (\<lambda>n. (None, [(''node_modules'', Dir),
                                       (''node_modules/a.js'', File ''A'')]))\<rparr>"

definition exampleWorld :: world where
  "exampleWorld =
     \<lparr>fs = [''/w'' \<mapsto> Dir, ''/w/package.json'' \<mapsto> File ''{}''],
      cwd = ''/w'', fds = [], locks = [], trace = [], console = []\<rparr>"

text \<open>The same project once the cache entry exists.\<close>

definition exampleCachedWorld :: world where
  "exampleCachedWorld =
     exampleWorld\<lparr>fs := (fs exampleWorld)
        (''/c/npm/10.0.0/abc123.tar.gz'' \<mapsto> File ''TGZ'',
         ''/w/node_modules'' \<mapsto> Dir,
         ''/w/node_modules/old.js'' \<mapsto> File ''OLD'')\<rparr>"

text \<open>
  The project after a successful install and before anything is cached; an environment
  whose install command fails; one whose compressor fails after writing two bytes.
\<close>

definition exampleInstalledWorld :: world where
  "exampleInstalledWorld =
     exampleWorld\<lparr>fs := (fs exampleWorld)
        (''/w/node_modules'' \<mapsto> Dir, ''/w/node_modules/a.js'' \<mapsto> File ''A'')\<rparr>"

definition failingInstallEnv :: env where
  "failingInstallEnv = exampleEnv\<lparr>shell_exec := (\<lambda>cmd f. (1, f))\<rparr>"

definition failingCompressEnv :: env where
  "failingCompressEnv = exampleEnv\<lparr>targz_compress := (\<lambda>src f. (Some ''ENOSPC'', ''TG''))\<rparr>"

definition exampleCachePath :: string where
  "exampleCachePath = ''/c/npm/10.0.0/abc123.tar.gz''"


text \<open>An environment whose decompressor fails after the first entry.\<close>

definition failingDecompressEnv :: env where
  "failingDecompressEnv =
     exampleEnv\<lparr>decompress_run := (\<lambda>n. (Some ''corrupt'', [(''node_modules'', Dir)]))\<rparr>"


text \<open>Another config of the same manager, with the same cache key.\<close>

definition exampleOtherConfig :: config where
  "exampleOtherConfig =
     exampleConfig\<lparr>installCommand := ''npm ci'', configPath := ''npm-shrinkwrap.json'',
                     forceRefresh := True\<rparr>"






section \<open>Basic facts\<close>

lemma log_fields [simp]:
  "fs (cacheLogInfo cfg m w) = fs w" "cwd (cacheLogInfo cfg m w) = cwd w"
  "fds (cacheLogInfo cfg m w) = fds w" "locks (cacheLogInfo cfg m w) = locks w"
  "trace (cacheLogInfo cfg m w) = trace w"
  "fs (cacheLogError cfg m w) = fs w" "cwd (cacheLogError cfg m w) = cwd w"
  "fds (cacheLogError cfg m w) = fds w" "locks (cacheLogError cfg m w) = locks w"
  "trace (cacheLogError cfg m w) = trace w"
  by (simp_all add: cacheLogInfo_def cacheLogError_def logInfo_def logError_def)

lemma log_reads [simp]:
  "existsSync (cacheLogInfo cfg m w) p = existsSync w p"
  "existsSync (cacheLogError cfg m w) p = existsSync w p"
  "abs_path (cacheLogInfo cfg m w) p = abs_path w p"
  "abs_path (cacheLogError cfg m w) p = abs_path w p"
  "getAbsolutePath (cacheLogInfo cfg m w) p = getAbsolutePath w p"
  "getAbsolutePath (cacheLogError cfg m w) p = getAbsolutePath w p"
  "resolveCacheDirectory c (cacheLogInfo cfg m w) = resolveCacheDirectory c w"
  "resolveCachePath c (cacheLogInfo cfg m w) = resolveCachePath c w"
  by (simp_all add: existsSync_def abs_path_def getAbsolutePath_def
        resolveCacheDirectory_def resolveCachePath_def)

lemma invoke_world [simp]: "snd (invoke cb a w) = w"
  by (simp add: invoke_def split: jsval.splits)

lemma invoke_Fun [simp]: "invoke (Fun k) a w = (Called k a, w)"
  by (simp add: invoke_def)

lemma add_event_fields [simp]:
  "fs (add_event e w) = fs w" "cwd (add_event e w) = cwd w" "fds (add_event e w) = fds w"
  "locks (add_event e w) = locks w" "trace (add_event e w) = trace w @ [e]"
  by (simp_all add: add_event_def)

lemma flock_fields [simp]:
  "trace (snd (flock env fd m w)) = trace w @ [Flock fd m]"
  "fs (snd (flock env fd m w)) = fs w" "cwd (snd (flock env fd m w)) = cwd w"
  "fds (snd (flock env fd m w)) = fds w"
  by (simp_all add: flock_def split: option.splits)

lemma decompress_fields [simp]:
  "trace (snd (decompress env src dst w)) = trace w @ [Decompress src dst]"
  "cwd (snd (decompress env src dst w)) = cwd w" "fds (snd (decompress env src dst w)) = fds w"
  "locks (snd (decompress env src dst w)) = locks w"
  by (simp_all add: decompress_def split: prod.splits)

lemma removeSync_fields [simp]:
  "cwd (removeSync d w) = cwd w" "fds (removeSync d w) = fds w"
  "locks (removeSync d w) = locks w" "trace (removeSync d w) = trace w @ [RemoveTree d]"
  by (simp_all add: removeSync_def)

lemma exec_fields [simp]:
  "trace (snd (exec env cmd w)) = trace w @ [Exec cmd]"
  "cwd (snd (exec env cmd w)) = cwd w" "fds (snd (exec env cmd w)) = fds w"
  "locks (snd (exec env cmd w)) = locks w"
  "fs (snd (exec env cmd w)) = snd (shell_exec env cmd (fs w))"
  "fst (exec env cmd w) = fst (shell_exec env cmd (fs w))"
  by (simp_all add: exec_def split: prod.splits)

lemma lockTmpFile_fields [simp]:
  "fst (lockTmpFile tmp w) = length (fds w)"
  "trace (snd (lockTmpFile tmp w)) = trace w @ [EnsureFile tmp, OpenWrite tmp, Flock (length (fds w)) LockEx]"
  "cwd (snd (lockTmpFile tmp w)) = cwd w"
  "fds (snd (lockTmpFile tmp w)) = fds w @ [tmp]"
  "locks (snd (lockTmpFile tmp w)) = set_lock (length (fds w)) LockEx (locks w)"
  by (simp_all add: lockTmpFile_def Let_def ensureFileSync_def openSync_w_def flockSync_def)

lemma compressTask_fields [simp]:
  "trace (snd (compressTask env cfg d tmp w)) = trace w @ [Compress d tmp]"
  "cwd (snd (compressTask env cfg d tmp w)) = cwd w"
  "fds (snd (compressTask env cfg d tmp w)) = fds w"
  "locks (snd (compressTask env cfg d tmp w)) = locks w"
  by (simp_all add: compressTask_def compress_def Let_def split: prod.splits option.splits)

lemma rename_fields [simp]:
  "trace (snd (rename env a b w)) = trace w @ [Rename a b]"
  "cwd (snd (rename env a b w)) = cwd w"
  "fds (snd (rename env a b w)) = fds w"
  "locks (snd (rename env a b w)) = locks w"
  by (simp_all add: rename_def split: option.splits)

lemma installDependencies_fields [simp]:
  "trace (snd (installDependencies env cfg w)) =
     trace w @ [Exec (trim (installCommand cfg @ '' '' @ installOptions cfg))]"
  "cwd (snd (installDependencies env cfg w)) = cwd w"
  "fds (snd (installDependencies env cfg w)) = fds w"
  "locks (snd (installDependencies env cfg w)) = locks w"
  "fs (snd (installDependencies env cfg w)) =
     snd (shell_exec env (trim (installCommand cfg @ '' '' @ installOptions cfg)) (fs w))"
  by (simp_all add: installDependencies_def Let_def split_beta)

lemma series3:
  "series [a, b, c] w =
     (if truthy (fst (a w)) then a w
      else if truthy (fst (b (snd (a w)))) then b (snd (a w))
      else if truthy (fst (c (snd (b (snd (a w)))))) then c (snd (b (snd (a w))))
      else (Null, snd (c (snd (b (snd (a w)))))))"
  by (simp split: prod.splits)

lemma abs_path_cong: "cwd w' = cwd w \<Longrightarrow> abs_path w' p = abs_path w p"
  by (simp add: abs_path_def)

lemma getAbsolutePath_cong: "cwd w' = cwd w \<Longrightarrow> getAbsolutePath w' p = getAbsolutePath w p"
  by (simp add: getAbsolutePath_def)

lemma extract_trace_cases:
  "trace (snd (extractDependencies env cfg cp w)) = trace w @ take 2 (extract_calls cfg cp w)
   \<or> trace (snd (extractDependencies env cfg cp w)) = trace w @ take 3 (extract_calls cfg cp w)
   \<or> trace (snd (extractDependencies env cfg cp w)) = trace w @ take 4 (extract_calls cfg cp w)
   \<or> trace (snd (extractDependencies env cfg cp w)) = trace w @ take 5 (extract_calls cfg cp w)"
  by (simp add: extractDependencies_def Let_def openSync_r_def extract_calls_def series3 split_beta)

lemma extract_trace:
  "\<exists>n. 2 \<le> n \<and> trace (snd (extractDependencies env cfg cp w)) = trace w @ take n (extract_calls cfg cp w)"
proof -
  have "2 \<le> (2::nat)" "2 \<le> (3::nat)" "2 \<le> (4::nat)" "2 \<le> (5::nat)"
    by simp_all
  with extract_trace_cases [of env cfg cp w] show ?thesis
    by blast
qed

lemma archive_trace_cases:
  "trace (snd (archiveDependencies env cfg cd cp w)) = trace w @ take 0 (archive_calls cfg cp w)
   \<or> trace (snd (archiveDependencies env cfg cd cp w)) = trace w @ take 3 (archive_calls cfg cp w)
   \<or> trace (snd (archiveDependencies env cfg cd cp w)) = trace w @ take 4 (archive_calls cfg cp w)
   \<or> trace (snd (archiveDependencies env cfg cd cp w)) = trace w @ take 5 (archive_calls cfg cp w)
   \<or> trace (snd (archiveDependencies env cfg cd cp w)) = trace w @ take 6 (archive_calls cfg cp w)"
  by (simp add: archiveDependencies_def Let_def archive_calls_def series3 split_beta)

lemma archive_trace:
  "\<exists>n. trace (snd (archiveDependencies env cfg cd cp w)) = trace w @ take n (archive_calls cfg cp w)"
  using archive_trace_cases [of env cfg cd cp w] by blast


lemma no_exec_in_archive_calls: "Exec c \<notin> set (take n (archive_calls cfg cp w))"
proof -
  have "Exec c \<notin> set (archive_calls cfg cp w)"
    by (simp add: archive_calls_def)
  then show ?thesis
    using set_take_subset [of n "archive_calls cfg cp w"] by blast
qed

lemma extract_calls_cong:
  "cwd w' = cwd w \<Longrightarrow> fds w' = fds w \<Longrightarrow> extract_calls cfg cp w' = extract_calls cfg cp w"
  by (simp add: extract_calls_def getAbsolutePath_def)

lemma archive_calls_cong:
  "cwd w' = cwd w \<Longrightarrow> fds w' = fds w \<Longrightarrow> archive_calls cfg cp w' = archive_calls cfg cp w"
  by (simp add: archive_calls_def getAbsolutePath_def)

lemma snd_case_completion:
  "snd (case r of (Thrown e, w') \<Rightarrow> (Uncaught e, w')
               | (CallbackWith x, w') \<Rightarrow> invoke cb (f x) w') = snd r"
  by (simp split: prod.splits completion.splits)


section \<open>The orchestrator: absent config file, missing tool\<close>

text \<open>
  Claim C8. When the config file exists but \<^verbatim>\<open>which.sync\<close> does not find the tool,
  the load operation hands an error to its callback, and the file system, the trace of
  calls (so: no clearing of the install directory, no install, no cache file), the locks
  and the descriptors are what they were. When the config file does not exist, the
  callback receives \<open>null\<close>, and again nothing but the console has changed.
\<close>

theorem load_tool_missing_or_config_absent:
  "(existsSync w (configPath cfg) \<and> \<not> which_sync env (cliName cfg) \<longrightarrow>
      (case loadDependencies env cfg (Fun k) w of
         (out, w') \<Rightarrow>
           out = Called k (Str (''Command line tool '' @ cliName cfg @ '' not installed''))
           \<and> truthy (Str (''Command line tool '' @ cliName cfg @ '' not installed''))
           \<and> fs w' = fs w \<and> trace w' = trace w \<and> locks w' = locks w \<and> fds w' = fds w))
   \<and> (\<not> existsSync w (configPath cfg) \<longrightarrow>
      (case loadDependencies env cfg (Fun k) w of
         (out, w') \<Rightarrow>
           out = Called k Null
           \<and> fs w' = fs w \<and> trace w' = trace w \<and> locks w' = locks w \<and> fds w' = fds w))"
  by (simp add: loadDependencies_def Let_def)

theorem load_tool_missing_or_config_absent_witness:
  "existsSync exampleWorld (configPath exampleConfig)
   \<and> \<not> which_sync (exampleEnv\<lparr>which_sync := \<lambda>n. False\<rparr>) (cliName exampleConfig)
   \<and> fst (loadDependencies (exampleEnv\<lparr>which_sync := \<lambda>n. False\<rparr>) exampleConfig (Fun 0) exampleWorld)
       = Called 0 (Str ''Command line tool npm not installed'')
   \<and> trace (snd (loadDependencies (exampleEnv\<lparr>which_sync := \<lambda>n. False\<rparr>) exampleConfig (Fun 0) exampleWorld)) = []
   \<and> \<not> existsSync (exampleWorld\<lparr>fs := Map.empty\<rparr>) (configPath exampleConfig)
   \<and> fst (loadDependencies exampleEnv exampleConfig (Fun 0) (exampleWorld\<lparr>fs := Map.empty\<rparr>))
       = Called 0 Null
   \<and> trace (snd (loadDependencies exampleEnv exampleConfig (Fun 0) (exampleWorld\<lparr>fs := Map.empty\<rparr>))) = []"
proof -
  have a: "existsSync exampleWorld (configPath exampleConfig)"
    by code_simp
  have b: "\<not> which_sync (exampleEnv\<lparr>which_sync := \<lambda>n. False\<rparr>) (cliName exampleConfig)"
    by simp
  have c: "\<not> existsSync (exampleWorld\<lparr>fs := Map.empty\<rparr>) (configPath exampleConfig)"
    by (simp add: existsSync_def)
  have t: "trace exampleWorld = []"
    by (simp add: exampleWorld_def)
  from a b c t
    load_tool_missing_or_config_absent
      [where w = exampleWorld and cfg = exampleConfig
         and env = "exampleEnv\<lparr>which_sync := \<lambda>n. False\<rparr>" and k = 0]
    load_tool_missing_or_config_absent
      [where w = "exampleWorld\<lparr>fs := Map.empty\<rparr>" and cfg = exampleConfig
         and env = exampleEnv and k = 0]
  show ?thesis
    by (simp add: exampleConfig_def split: prod.splits)
qed

section \<open>The orchestrator on a hit\<close>



section \<open>The orchestrator on a miss\<close>

lemma installDependencies_result:
  "fst (installDependencies env cfg w) =
     (if fst (shell_exec env (trim (installCommand cfg @ '' '' @ installOptions cfg)) (fs w)) \<noteq> 0
      then Str (''error running '' @ installCommand cfg) else Null)"
  by (simp add: installDependencies_def Let_def split_beta)

lemma load_miss_eq:
  assumes "existsSync w (configPath cfg)" and "which_sync env (cliName cfg)"
    and "forceRefresh cfg \<or> \<not> existsSync w (resolveCachePath cfg w)"
  shows "\<exists>w0. same_but_console w w0
           \<and> loadDependencies env cfg callback w =
               (case installDependencies env cfg w0 of
                  (error, w4) \<Rightarrow>
                    if error \<noteq> Null then invoke callback error w4
                    else (case archiveDependencies env cfg (resolveCacheDirectory cfg w)
                                 (resolveCachePath cfg w) w4 of
                            (archiveError, w5) \<Rightarrow>
                              invoke callback
                                (if truthy archiveError then archiveError else error) w5))"
proof -
  let ?w0 = "cacheLogInfo cfg (''hash of '' @ configPath cfg @ '': '' @ getFileHash cfg (configPath cfg))
         (cacheLogInfo cfg ''cli exists'' (cacheLogInfo cfg ''config file exists'' w))"
  have "same_but_console w ?w0"
    by (simp add: same_but_console_def)
  moreover have "loadDependencies env cfg callback w =
               (case installDependencies env cfg ?w0 of
                  (error, w4) \<Rightarrow>
                    if error \<noteq> Null then invoke callback error w4
                    else (case archiveDependencies env cfg (resolveCacheDirectory cfg w)
                                 (resolveCachePath cfg w) w4 of
                            (archiveError, w5) \<Rightarrow>
                              invoke callback
                                (if truthy archiveError then archiveError else error) w5))"
    using assms by (auto simp add: loadDependencies_def Let_def split_beta)
  ultimately show ?thesis
    by blast
qed

text \<open>
  Claim C3. On a miss (the config file exists, the tool is found, and \<open>forceRefresh\<close> is
  set or nothing is at the resolved cache path) the install command, trimmed, is run as a
  subprocess first. When it exits with a code other than 0, the callback receives the
  error string and the subprocess is the only call made: the archive writer is not
  entered. When it exits with 0, the load operation is the archive writer, given the
  resolved cache directory and cache path and started in the world the subprocess left,
  its result handed to the callback; all its calls come after the subprocess.
\<close>

theorem load_miss_installs_then_archives:
  assumes "existsSync w (configPath cfg)" and "which_sync env (cliName cfg)"
    and "forceRefresh cfg \<or> \<not> existsSync w (resolveCachePath cfg w)"
    and "cmd = trim (installCommand cfg @ '' '' @ installOptions cfg)"
  shows "(fst (shell_exec env cmd (fs w)) \<noteq> 0 \<longrightarrow>
           fst (loadDependencies env cfg (Fun k) w) =
             Called k (Str (''error running '' @ installCommand cfg))
           \<and> truthy (Str (''error running '' @ installCommand cfg))
           \<and> trace (snd (loadDependencies env cfg (Fun k) w)) = trace w @ [Exec cmd])
       \<and> (fst (shell_exec env cmd (fs w)) = 0 \<longrightarrow>
           (\<exists>w1 n. fs w1 = snd (shell_exec env cmd (fs w)) \<and> cwd w1 = cwd w
              \<and> fds w1 = fds w \<and> locks w1 = locks w \<and> trace w1 = trace w @ [Exec cmd]
              \<and> loadDependencies env cfg (Fun k) w =
                  (case archiveDependencies env cfg (resolveCacheDirectory cfg w)
                          (resolveCachePath cfg w) w1 of
                     (archiveError, w') \<Rightarrow>
                       (Called k (if truthy archiveError then archiveError else Null), w'))
              \<and> trace (snd (loadDependencies env cfg (Fun k) w)) =
                  trace w @ Exec cmd # take n (archive_calls cfg (resolveCachePath cfg w) w)))"
proof -
  let ?cd = "resolveCacheDirectory cfg w" and ?cp = "resolveCachePath cfg w"
  obtain w0 where same: "same_but_console w w0"
    and eq: "loadDependencies env cfg (Fun k) w =
               (case installDependencies env cfg w0 of
                  (error, w4) \<Rightarrow>
                    if error \<noteq> Null then invoke (Fun k) error w4
                    else (case archiveDependencies env cfg ?cd ?cp w4 of
                            (archiveError, w5) \<Rightarrow>
                              invoke (Fun k)
                                (if truthy archiveError then archiveError else error) w5))"
    using load_miss_eq [OF assms(1-3)] by blast
  let ?w1 = "snd (installDependencies env cfg w0)"
  have w0: "fs w0 = fs w" "cwd w0 = cwd w" "fds w0 = fds w" "locks w0 = locks w" "trace w0 = trace w"
    using same by (simp_all add: same_but_console_def)
  have res: "fst (installDependencies env cfg w0) =
       (if fst (shell_exec env cmd (fs w)) \<noteq> 0 then Str (''error running '' @ installCommand cfg) else Null)"
    by (simp add: installDependencies_result w0 assms(4))
  have w1: "fs ?w1 = snd (shell_exec env cmd (fs w))" "cwd ?w1 = cwd w" "fds ?w1 = fds w"
      "locks ?w1 = locks w" "trace ?w1 = trace w @ [Exec cmd]"
    by (simp_all add: w0 assms(4))
  have fail: "fst (loadDependencies env cfg (Fun k) w) =
             Called k (Str (''error running '' @ installCommand cfg))
           \<and> truthy (Str (''error running '' @ installCommand cfg))
           \<and> trace (snd (loadDependencies env cfg (Fun k) w)) = trace w @ [Exec cmd]"
    if "fst (shell_exec env cmd (fs w)) \<noteq> 0"
    using that res w1 by (simp add: eq split_beta)
  have ok: "\<exists>w1 n. fs w1 = snd (shell_exec env cmd (fs w)) \<and> cwd w1 = cwd w
              \<and> fds w1 = fds w \<and> locks w1 = locks w \<and> trace w1 = trace w @ [Exec cmd]
              \<and> loadDependencies env cfg (Fun k) w =
                  (case archiveDependencies env cfg ?cd ?cp w1 of
                     (archiveError, w') \<Rightarrow>
                       (Called k (if truthy archiveError then archiveError else Null), w'))
              \<and> trace (snd (loadDependencies env cfg (Fun k) w)) =
                  trace w @ Exec cmd # take n (archive_calls cfg ?cp w)"
    if zero: "fst (shell_exec env cmd (fs w)) = 0"
  proof -
    have eq': "loadDependencies env cfg (Fun k) w =
                  (case archiveDependencies env cfg ?cd ?cp ?w1 of
                     (archiveError, w') \<Rightarrow>
                       (Called k (if truthy archiveError then archiveError else Null), w'))"
      using zero res by (simp add: eq split_beta)
    obtain n where n: "trace (snd (archiveDependencies env cfg ?cd ?cp ?w1)) =
                         trace ?w1 @ take n (archive_calls cfg ?cp ?w1)"
      using archive_trace by blast
    have calls: "archive_calls cfg ?cp ?w1 = archive_calls cfg ?cp w"
      using archive_calls_cong [of ?w1 w cfg ?cp] w1 by simp
    have tr: "trace (snd (loadDependencies env cfg (Fun k) w)) =
                  trace w @ Exec cmd # take n (archive_calls cfg ?cp w)"
      using n calls w1 by (simp add: eq' split_beta)
    show ?thesis
      by (intro exI [of _ ?w1] exI [of _ n] conjI w1 eq' tr)
  qed
  from fail ok show ?thesis
    by blast
qed

theorem load_miss_installs_then_archives_witness:
  "existsSync exampleWorld (configPath exampleConfig)
   \<and> which_sync failingInstallEnv (cliName exampleConfig)
   \<and> \<not> existsSync exampleWorld (resolveCachePath exampleConfig exampleWorld)
   \<and> fst (shell_exec failingInstallEnv ''npm install'' (fs exampleWorld)) \<noteq> 0
   \<and> fst (loadDependencies failingInstallEnv exampleConfig (Fun 0) exampleWorld) =
        Called 0 (Str ''error running npm install'')
   \<and> trace (snd (loadDependencies failingInstallEnv exampleConfig (Fun 0) exampleWorld)) =
        [Exec ''npm install'']
   \<and> which_sync exampleEnv (cliName exampleConfig)
   \<and> fst (shell_exec exampleEnv ''npm install'' (fs exampleWorld)) = 0
   \<and> (\<exists>w1 n. fs w1 = snd (shell_exec exampleEnv ''npm install'' (fs exampleWorld))
         \<and> trace w1 = [Exec ''npm install'']
         \<and> loadDependencies exampleEnv exampleConfig (Fun 0) exampleWorld =
             (case archiveDependencies exampleEnv exampleConfig
                     (resolveCacheDirectory exampleConfig exampleWorld)
                     (resolveCachePath exampleConfig exampleWorld) w1 of
                (archiveError, w') \<Rightarrow>
                  (Called 0 (if truthy archiveError then archiveError else Null), w'))
         \<and> trace (snd (loadDependencies exampleEnv exampleConfig (Fun 0) exampleWorld)) =
             Exec ''npm install''
             # take n (archive_calls exampleConfig (resolveCachePath exampleConfig exampleWorld)
                        exampleWorld))"
proof -
  have a: "existsSync exampleWorld (configPath exampleConfig)"
    by code_simp
  have b: "which_sync failingInstallEnv (cliName exampleConfig)"
    by code_simp
  have b': "which_sync exampleEnv (cliName exampleConfig)"
    by code_simp
  have c: "\<not> existsSync exampleWorld (resolveCachePath exampleConfig exampleWorld)"
    by code_simp
  then have c': "forceRefresh exampleConfig
                 \<or> \<not> existsSync exampleWorld (resolveCachePath exampleConfig exampleWorld)"
    by simp
  have d: "''npm install'' = trim (installCommand exampleConfig @ '' '' @ installOptions exampleConfig)"
    by code_simp
  have e: "fst (shell_exec failingInstallEnv ''npm install'' (fs exampleWorld)) \<noteq> 0"
    by (simp add: failingInstallEnv_def)
  have e': "fst (shell_exec exampleEnv ''npm install'' (fs exampleWorld)) = 0"
    by (simp add: exampleEnv_def)
  have t: "trace exampleWorld = []" "installCommand exampleConfig = ''npm install''"
    by (simp_all add: exampleWorld_def exampleConfig_def)
  from load_miss_installs_then_archives [OF a b c' d, of 0] e t
  have fail: "fst (loadDependencies failingInstallEnv exampleConfig (Fun 0) exampleWorld) =
        Called 0 (Str ''error running npm install'')
   \<and> trace (snd (loadDependencies failingInstallEnv exampleConfig (Fun 0) exampleWorld)) =
        [Exec ''npm install'']"
    by simp
  from load_miss_installs_then_archives [OF a b' c' d, of 0] e' t
  have ok: "\<exists>w1 n. fs w1 = snd (shell_exec exampleEnv ''npm install'' (fs exampleWorld))
         \<and> trace w1 = [Exec ''npm install'']
         \<and> loadDependencies exampleEnv exampleConfig (Fun 0) exampleWorld =
             (case archiveDependencies exampleEnv exampleConfig
                     (resolveCacheDirectory exampleConfig exampleWorld)
                     (resolveCachePath exampleConfig exampleWorld) w1 of
                (archiveError, w') \<Rightarrow>
                  (Called 0 (if truthy archiveError then archiveError else Null), w'))
         \<and> trace (snd (loadDependencies exampleEnv exampleConfig (Fun 0) exampleWorld)) =
             Exec ''npm install''
             # take n (archive_calls exampleConfig (resolveCachePath exampleConfig exampleWorld)
                        exampleWorld)"
    by auto
  from a b b' c e e' fail ok show ?thesis
    by (intro conjI) simp_all
qed


section \<open>The archive writer\<close>

lemma lockTmpFile_log [simp]:
  "fs (snd (lockTmpFile tmp (cacheLogInfo cfg m w))) = fs (snd (lockTmpFile tmp w))"
  "existsSync (snd (lockTmpFile tmp (cacheLogInfo cfg m w))) p = existsSync (snd (lockTmpFile tmp w)) p"
  by (simp_all add: lockTmpFile_def Let_def ensureFileSync_def openSync_w_def flockSync_def
        existsSync_def abs_path_def)

lemma archive_no_directory:
  assumes "\<not> existsSync w (getAbsolutePath w (installDirectory cfg))"
  shows "fst (archiveDependencies env cfg cd cp w) = Undefined"
    and "trace (snd (archiveDependencies env cfg cd cp w)) = trace w"
    and "fs (snd (archiveDependencies env cfg cd cp w)) = fs w"
    and "locks (snd (archiveDependencies env cfg cd cp w)) = locks w"
    and "fds (snd (archiveDependencies env cfg cd cp w)) = fds w"
  using assms by (simp_all add: archiveDependencies_def Let_def)

lemma archive_already_cached:
  assumes "existsSync w (getAbsolutePath w (installDirectory cfg))"
    and "existsSync (snd (lockTmpFile (cp @ ''~'') w)) cp"
  shows "fst (archiveDependencies env cfg cd cp w) = Undefined"
    and "trace (snd (archiveDependencies env cfg cd cp w)) =
           trace w @ [EnsureFile (cp @ ''~''), OpenWrite (cp @ ''~''), Flock (length (fds w)) LockEx]"
    and "fs (snd (archiveDependencies env cfg cd cp w)) = fs (snd (lockTmpFile (cp @ ''~'') w))"
  using assms by (simp_all add: archiveDependencies_def Let_def split_beta)

text \<open>
  Claim C7. The archive writer hands \<open>undefined\<close> (no error) to its callback and never
  calls the compressor in two cases: when the installed directory does not exist, where it
  makes no call at all; and when, the temporary file created, opened and locked, something
  exists at the final cache path, where these three calls are all it makes.
\<close>

theorem archive_skips_without_compressing:
  "(\<not> existsSync w (getAbsolutePath w (installDirectory cfg)) \<longrightarrow>
      (case archiveDependencies env cfg cd cp w of
         (r, w') \<Rightarrow> r = Undefined \<and> \<not> truthy r \<and> trace w' = trace w \<and> fs w' = fs w
                    \<and> locks w' = locks w \<and> fds w' = fds w))
   \<and> (existsSync w (getAbsolutePath w (installDirectory cfg))
       \<and> existsSync (snd (lockTmpFile (cp @ ''~'') w)) cp \<longrightarrow>
      (case archiveDependencies env cfg cd cp w of
         (r, w') \<Rightarrow> r = Undefined \<and> \<not> truthy r
           \<and> trace w' = trace w @ [EnsureFile (cp @ ''~''), OpenWrite (cp @ ''~''),
                                    Flock (length (fds w)) LockEx]
           \<and> fs w' = fs (snd (lockTmpFile (cp @ ''~'') w))))"
  using archive_no_directory [of w cfg env cd cp] archive_already_cached [of w cfg cp env cd]
  by (simp add: split_beta)

theorem archive_skips_without_compressing_witness:
  "\<not> existsSync exampleWorld (getAbsolutePath exampleWorld (installDirectory exampleConfig))
   \<and> fst (archiveDependencies exampleEnv exampleConfig ''/c/npm/10.0.0'' exampleCachePath exampleWorld)
       = Undefined
   \<and> trace (snd (archiveDependencies exampleEnv exampleConfig ''/c/npm/10.0.0'' exampleCachePath
                    exampleWorld)) = []
   \<and> existsSync exampleCachedWorld
        (getAbsolutePath exampleCachedWorld (installDirectory exampleConfig))
   \<and> existsSync (snd (lockTmpFile (exampleCachePath @ ''~'') exampleCachedWorld)) exampleCachePath
   \<and> fst (archiveDependencies exampleEnv exampleConfig ''/c/npm/10.0.0'' exampleCachePath
             exampleCachedWorld) = Undefined
   \<and> trace (snd (archiveDependencies exampleEnv exampleConfig ''/c/npm/10.0.0'' exampleCachePath
                    exampleCachedWorld)) =
       [EnsureFile (exampleCachePath @ ''~''), OpenWrite (exampleCachePath @ ''~''), Flock 0 LockEx]"
proof -
  have a: "\<not> existsSync exampleWorld (getAbsolutePath exampleWorld (installDirectory exampleConfig))"
    by code_simp
  have b: "existsSync exampleCachedWorld
             (getAbsolutePath exampleCachedWorld (installDirectory exampleConfig))"
    by code_simp
  have c: "existsSync (snd (lockTmpFile (exampleCachePath @ ''~'') exampleCachedWorld)) exampleCachePath"
    by code_simp
  have t: "trace exampleWorld = []" "trace exampleCachedWorld = []" "fds exampleCachedWorld = []"
    by (simp_all add: exampleWorld_def exampleCachedWorld_def)
  from a b c t
    archive_skips_without_compressing
      [of exampleWorld exampleConfig exampleEnv "''/c/npm/10.0.0''" exampleCachePath]
    archive_skips_without_compressing
      [of exampleCachedWorld exampleConfig exampleEnv "''/c/npm/10.0.0''" exampleCachePath]
  show ?thesis
    by (simp add: split_beta)
qed

lemma compressTask_result:
  "fst (compressTask env cfg d tmp w) =
     (case fst (targz_compress env d (fs w)) of
        Some message \<Rightarrow> Str (''error tar-ing '' @ d @ '': '' @ message)
      | None \<Rightarrow> Null)"
  "fs (snd (compressTask env cfg d tmp w)) =
     (fs w)(abs_path w tmp \<mapsto> File (snd (targz_compress env d (fs w))))"
  by (simp_all add: compressTask_def compress_def Let_def split: prod.splits option.splits)

lemma rename_result:
  "fst (rename env a b w) = (case rename_error env a b (fs w) of Some m \<Rightarrow> ErrorObj m | None \<Rightarrow> Null)"
  "fs (snd (rename env a b w)) =
     (case rename_error env a b (fs w) of
        Some m \<Rightarrow> fs w
      | None \<Rightarrow> (fs w)(abs_path w b := fs w (abs_path w a), abs_path w a := None))"
  by (simp_all add: rename_def split: option.splits)

lemma flock_result:
  "fst (flock env fd m w) = (case flock_error env fd m of Some msg \<Rightarrow> ErrorObj msg | None \<Rightarrow> Null)"
  "locks (snd (flock env fd m w)) =
     (case flock_error env fd m of Some msg \<Rightarrow> locks w | None \<Rightarrow> set_lock fd m (locks w))"
  by (simp_all add: flock_def split: option.splits)

lemma archive_writes_eq:
  assumes "existsSync w (getAbsolutePath w (installDirectory cfg))"
    and "\<not> existsSync (snd (lockTmpFile (cp @ ''~'') w)) cp"
  shows "\<exists>w4. same_but_console (snd (lockTmpFile (cp @ ''~'') w)) w4
           \<and> archiveDependencies env cfg cd cp w =
           series [compressTask env cfg (getAbsolutePath w (installDirectory cfg)) (cp @ ''~''),
                   rename env (cp @ ''~'') cp,
                   flock env (length (fds w)) LockUn] w4"
proof -
  let ?w4 = "snd (lockTmpFile (cp @ ''~'')
               (cacheLogInfo cfg (''archiving dependencies from '' @ getAbsolutePath w (installDirectory cfg)) w))"
  have "same_but_console (snd (lockTmpFile (cp @ ''~'') w)) ?w4"
    by (simp add: same_but_console_def)
  moreover have "archiveDependencies env cfg cd cp w =
           series [compressTask env cfg (getAbsolutePath w (installDirectory cfg)) (cp @ ''~''),
                   rename env (cp @ ''~'') cp,
                   flock env (length (fds w)) LockUn] ?w4"
    using assms by (simp add: archiveDependencies_def Let_def split_beta)
  ultimately show ?thesis by blast
qed


text \<open>
  Claim C4. When the installed directory exists and nothing is at the cache path once the
  temporary file \<open>cachePath~\<close> is locked, the compressor writes to the temporary path, and
  the cache path still holds nothing after it, whatever it reports. If it reports an
  error, the callback receives an error, no rename is attempted, nothing is at the cache
  path and the temporary file stays with what was written. Only when it reports success
  is the temporary file renamed to the cache path, which then holds the bytes of the
  finished archive; a failing rename leaves the cache path empty as well. The temporary
  path and the cache path are taken to be different files, as they are for every cache
  path that \<^verbatim>\<open>loadDependencies\<close> computes (\<open>resolved_tmp_differs\<close> below).
\<close>

theorem archive_writes_temp_then_renames:
  assumes dir: "dir = getAbsolutePath w (installDirectory cfg)"
    and tmp: "tmp = cp @ ''~''"
    and w4: "w4 = snd (lockTmpFile tmp w)"
    and c: "c = targz_compress env dir (fs w4)"
    and f5: "f5 = (fs w4)(abs_path w tmp \<mapsto> File (snd c))"
    and ex: "existsSync w dir"
    and nex: "\<not> existsSync w4 cp"
    and ne: "abs_path w tmp \<noteq> abs_path w cp"
  shows "(case archiveDependencies env cfg cd cp w of
           (r, w') \<Rightarrow>
             (\<forall>msg. fst c = Some msg \<longrightarrow>
                r = Str (''error tar-ing '' @ dir @ '': '' @ msg) \<and> truthy r
                \<and> trace w' = trace w @ [EnsureFile tmp, OpenWrite tmp, Flock (length (fds w)) LockEx,
                                         Compress dir tmp]
                \<and> fs w' = f5)
           \<and> (\<forall>m. fst c = None \<and> rename_error env tmp cp f5 = Some m \<longrightarrow>
                r = ErrorObj m \<and> truthy r
                \<and> trace w' = trace w @ [EnsureFile tmp, OpenWrite tmp, Flock (length (fds w)) LockEx,
                                         Compress dir tmp, Rename tmp cp]
                \<and> fs w' = f5)
           \<and> (fst c = None \<and> rename_error env tmp cp f5 = None \<longrightarrow>
                r = (case flock_error env (length (fds w)) LockUn of
                       Some m \<Rightarrow> ErrorObj m | None \<Rightarrow> Null)
                \<and> trace w' = trace w @ [EnsureFile tmp, OpenWrite tmp, Flock (length (fds w)) LockEx,
                                         Compress dir tmp, Rename tmp cp,
                                         Flock (length (fds w)) LockUn]
                \<and> fs w' = f5(abs_path w cp \<mapsto> File (snd c), abs_path w tmp := None)))
       \<and> fs w4 (abs_path w cp) = None
       \<and> f5 (abs_path w cp) = None
       \<and> f5 (abs_path w tmp) = Some (File (snd c))"
proof -
  let ?fd = "length (fds w)"
  obtain v where same: "same_but_console w4 v"
    and eq: "archiveDependencies env cfg cd cp w =
               series [compressTask env cfg dir tmp, rename env tmp cp, flock env ?fd LockUn] v"
    using archive_writes_eq [of w cfg cp env cd] ex nex by (auto simp: dir tmp w4)
  have v: "fs v = fs w4" "cwd v = cwd w" "trace v = trace w @ [EnsureFile tmp, OpenWrite tmp, Flock ?fd LockEx]"
    using same by (simp_all add: same_but_console_def w4)
  have absv: "abs_path v tmp = abs_path w tmp" "abs_path v cp = abs_path w cp"
    using v(2) by (simp_all add: abs_path_def)
  let ?v5 = "snd (compressTask env cfg dir tmp v)"
  have r5: "fst (compressTask env cfg dir tmp v) =
              (case fst c of Some message \<Rightarrow> Str (''error tar-ing '' @ dir @ '': '' @ message)
                           | None \<Rightarrow> Null)"
    by (simp add: compressTask_result v c)
  have v5: "fs ?v5 = f5" "cwd ?v5 = cwd w"
      "trace ?v5 = trace w @ [EnsureFile tmp, OpenWrite tmp, Flock ?fd LockEx, Compress dir tmp]"
    by (simp_all add: compressTask_result v c f5 absv)
  have abs5: "abs_path ?v5 tmp = abs_path w tmp" "abs_path ?v5 cp = abs_path w cp"
    using v5(2) by (simp_all add: abs_path_def)
  let ?v6 = "snd (rename env tmp cp ?v5)"
  have r6: "fst (rename env tmp cp ?v5) =
              (case rename_error env tmp cp f5 of Some m \<Rightarrow> ErrorObj m | None \<Rightarrow> Null)"
    by (simp add: rename_result v5)
  have v6: "fs ?v6 = (case rename_error env tmp cp f5 of
                        Some m \<Rightarrow> f5
                      | None \<Rightarrow> f5(abs_path w cp := f5 (abs_path w tmp), abs_path w tmp := None))"
      "trace ?v6 = trace w @ [EnsureFile tmp, OpenWrite tmp, Flock ?fd LockEx, Compress dir tmp,
                              Rename tmp cp]"
    by (simp_all add: rename_result v5 v abs5 split: option.splits)
  have none4: "fs w4 (abs_path w cp) = None"
    using nex by (simp add: existsSync_def abs_path_def w4)
  have none5: "f5 (abs_path w cp) = None"
    using none4 ne by (simp add: f5)
  have some5: "f5 (abs_path w tmp) = Some (File (snd c))"
    by (simp add: f5)
  have "case series [compressTask env cfg dir tmp, rename env tmp cp, flock env ?fd LockUn] v of
           (r, w') \<Rightarrow>
             (\<forall>msg. fst c = Some msg \<longrightarrow>
                r = Str (''error tar-ing '' @ dir @ '': '' @ msg) \<and> truthy r
                \<and> trace w' = trace w @ [EnsureFile tmp, OpenWrite tmp, Flock ?fd LockEx,
                                         Compress dir tmp]
                \<and> fs w' = f5)
           \<and> (\<forall>m. fst c = None \<and> rename_error env tmp cp f5 = Some m \<longrightarrow>
                r = ErrorObj m \<and> truthy r
                \<and> trace w' = trace w @ [EnsureFile tmp, OpenWrite tmp, Flock ?fd LockEx,
                                         Compress dir tmp, Rename tmp cp]
                \<and> fs w' = f5)
           \<and> (fst c = None \<and> rename_error env tmp cp f5 = None \<longrightarrow>
                r = (case flock_error env ?fd LockUn of
                       Some m \<Rightarrow> ErrorObj m | None \<Rightarrow> Null)
                \<and> trace w' = trace w @ [EnsureFile tmp, OpenWrite tmp, Flock ?fd LockEx,
                                         Compress dir tmp, Rename tmp cp, Flock ?fd LockUn]
                \<and> fs w' = f5(abs_path w cp \<mapsto> File (snd c), abs_path w tmp := None))"
    using r5 v5 r6 v6 some5
    by (auto simp add: series3 split_beta flock_result split: option.splits)
  with none4 none5 some5 show ?thesis
    by (simp add: eq)
qed

theorem archive_writes_temp_then_renames_witness:
  "existsSync exampleInstalledWorld
     (getAbsolutePath exampleInstalledWorld (installDirectory exampleConfig))
   \<and> \<not> existsSync (snd (lockTmpFile (exampleCachePath @ ''~'') exampleInstalledWorld))
         exampleCachePath
   \<and> abs_path exampleInstalledWorld (exampleCachePath @ ''~'')
       \<noteq> abs_path exampleInstalledWorld exampleCachePath
   \<and> (case archiveDependencies failingCompressEnv exampleConfig ''/c/npm/10.0.0''
              exampleCachePath exampleInstalledWorld of
         (r, w') \<Rightarrow>
           r = Str ''error tar-ing /w/node_modules: ENOSPC''
           \<and> fs w' ''/c/npm/10.0.0/abc123.tar.gz'' = None
           \<and> fs w' ''/c/npm/10.0.0/abc123.tar.gz~'' = Some (File ''TG''))
   \<and> (case archiveDependencies exampleEnv exampleConfig ''/c/npm/10.0.0''
              exampleCachePath exampleInstalledWorld of
         (r, w') \<Rightarrow>
           r = Null
           \<and> fs w' ''/c/npm/10.0.0/abc123.tar.gz'' = Some (File ''TGZ'')
           \<and> fs w' ''/c/npm/10.0.0/abc123.tar.gz~'' = None)"
proof -
  let ?w = exampleInstalledWorld and ?cp = exampleCachePath
  have a: "existsSync ?w (getAbsolutePath ?w (installDirectory exampleConfig))"
    by code_simp
  have b: "\<not> existsSync (snd (lockTmpFile (?cp @ ''~'') ?w)) ?cp"
    by code_simp
  have c: "abs_path ?w (?cp @ ''~'') \<noteq> abs_path ?w ?cp"
    by code_simp
  have p: "abs_path ?w (?cp @ ''~'') = ''/c/npm/10.0.0/abc123.tar.gz~''"
      "abs_path ?w ?cp = ''/c/npm/10.0.0/abc123.tar.gz''"
      "getAbsolutePath ?w (installDirectory exampleConfig) = ''/w/node_modules''"
    by code_simp+
  have e: "targz_compress failingCompressEnv d f = (Some ''ENOSPC'', ''TG'')"
      "targz_compress exampleEnv d f = (None, ''TGZ'')"
      "rename_error exampleEnv x y f = None" "flock_error exampleEnv n m = None" for d f x y n m
    by (simp_all add: failingCompressEnv_def exampleEnv_def)
  from archive_writes_temp_then_renames [OF refl refl refl refl refl a b c,
         of failingCompressEnv "''/c/npm/10.0.0''"]
  have fail: "case archiveDependencies failingCompressEnv exampleConfig ''/c/npm/10.0.0''
              ?cp ?w of
         (r, w') \<Rightarrow>
           r = Str ''error tar-ing /w/node_modules: ENOSPC''
           \<and> fs w' ''/c/npm/10.0.0/abc123.tar.gz'' = None
           \<and> fs w' ''/c/npm/10.0.0/abc123.tar.gz~'' = Some (File ''TG'')"
    by (simp add: split_beta e p)
  from archive_writes_temp_then_renames [OF refl refl refl refl refl a b c,
         of exampleEnv "''/c/npm/10.0.0''"]
  have ok: "case archiveDependencies exampleEnv exampleConfig ''/c/npm/10.0.0'' ?cp ?w of
         (r, w') \<Rightarrow>
           r = Null
           \<and> fs w' ''/c/npm/10.0.0/abc123.tar.gz'' = Some (File ''TGZ'')
           \<and> fs w' ''/c/npm/10.0.0/abc123.tar.gz~'' = None"
    by (simp add: split_beta e p)
  from a b c fail ok show ?thesis
    by (intro conjI)
qed


section \<open>The archive reader\<close>

lemma write_entries_Nil: "write_entries dst [] f = f"
  by (simp add: write_entries_def)

lemma write_entries_Cons:
  "write_entries dst (e # es) f = write_entries dst es (f(dst @ ''/'' @ fst e \<mapsto> snd e))"
  by (simp add: write_entries_def)

lemma write_entries_pointwise:
  "f p = g p \<Longrightarrow> write_entries dst es f p = write_entries dst es g p"
proof (induction es arbitrary: f g)
  case Nil
  then show ?case by (simp only: write_entries_Nil)
next
  case (Cons e es)
  let ?k = "dst @ ''/'' @ fst e"
  have "(f(?k \<mapsto> snd e)) p = (g(?k \<mapsto> snd e)) p"
    using Cons.prems by (simp only: fun_upd_apply)
  then have "write_entries dst es (f(?k \<mapsto> snd e)) p = write_entries dst es (g(?k \<mapsto> snd e)) p"
    by (rule Cons.IH)
  then show ?case
    by (simp only: write_entries_Cons)
qed

lemma decompress_result:
  "fst (decompress env src dst w) =
     (case fst (decompress_run env (fs w (abs_path w src))) of
        Some msg \<Rightarrow> ErrorObj msg | None \<Rightarrow> Null)"
  "fs (snd (decompress env src dst w)) =
     write_entries dst (snd (decompress_run env (fs w (abs_path w src)))) (fs w)"
  by (simp_all add: decompress_def split: prod.splits)

lemma extract_eq:
  "\<exists>w4. fs w4 = (\<lambda>p. if path_under (abs_path w (getAbsolutePath w (installDirectory cfg))) p
                      then None else fs w p)
     \<and> cwd w4 = cwd w \<and> fds w4 = fds w \<and> locks w4 = locks w
     \<and> trace w4 = trace w @ [RemoveTree (getAbsolutePath w (installDirectory cfg))]
     \<and> fst (extractDependencies env cfg cp w) =
         (case openSync_r cp w4 of
            (Inl e, w5) \<Rightarrow> Thrown e
          | (Inr fd, w5) \<Rightarrow>
              CallbackWith (fst (series [flock env fd LockSh, decompress env cp (cwd w5),
                                         flock env fd LockUn] w5)))
     \<and> same_but_console
          (case openSync_r cp w4 of
            (Inl e, w5) \<Rightarrow> w5
          | (Inr fd, w5) \<Rightarrow>
              snd (series [flock env fd LockSh, decompress env cp (cwd w5),
                           flock env fd LockUn] w5))
          (snd (extractDependencies env cfg cp w))"
proof -
  let ?dir = "getAbsolutePath w (installDirectory cfg)"
  let ?w4 = "cacheLogInfo cfg (''extracting dependencies from '' @ cp)
              (cacheLogInfo cfg ''...cleared''
                (removeSync ?dir
                  (cacheLogInfo cfg (''clearing installed dependencies at '' @ ?dir) w)))"
  have "fs ?w4 = (\<lambda>p. if path_under (abs_path w ?dir) p then None else fs w p)"
    by (simp add: removeSync_def cong: if_cong)
  moreover have "cwd ?w4 = cwd w" "fds ?w4 = fds w" "locks ?w4 = locks w"
      "trace ?w4 = trace w @ [RemoveTree ?dir]"
    by simp_all
  moreover have "fst (extractDependencies env cfg cp w) =
         (case openSync_r cp ?w4 of
            (Inl e, w5) \<Rightarrow> Thrown e
          | (Inr fd, w5) \<Rightarrow>
              CallbackWith (fst (series [flock env fd LockSh, decompress env cp (cwd w5),
                                         flock env fd LockUn] w5)))"
    by (simp add: extractDependencies_def Let_def split: prod.splits sum.splits)
  moreover have "same_but_console
          (case openSync_r cp ?w4 of
            (Inl e, w5) \<Rightarrow> w5
          | (Inr fd, w5) \<Rightarrow>
              snd (series [flock env fd LockSh, decompress env cp (cwd w5),
                           flock env fd LockUn] w5))
          (snd (extractDependencies env cfg cp w))"
    by (simp add: extractDependencies_def Let_def same_but_console_def split: prod.splits sum.splits)
  ultimately show ?thesis
    by blast
qed


lemma extract_outcomes:
  assumes dir: "dir = getAbsolutePath w (installDirectory cfg)"
    and cleared: "cleared = (\<lambda>p. if path_under (abs_path w dir) p then None else fs w p)"
    and run: "run = decompress_run env (cleared (abs_path w cp))"
    and fd: "fd = length (fds w)"
  shows "(case extractDependencies env cfg cp w of
           (r, w') \<Rightarrow>
             (cleared (abs_path w cp) = None \<longrightarrow>
                r = Thrown (ENOENT cp) \<and> fs w' = cleared
                \<and> trace w' = trace w @ [RemoveTree dir, OpenRead cp])
           \<and> (cleared (abs_path w cp) \<noteq> None \<longrightarrow>
                (\<forall>m. flock_error env fd LockSh = Some m \<longrightarrow>
                   r = CallbackWith (ErrorObj m) \<and> fs w' = cleared
                   \<and> trace w' = trace w @ [RemoveTree dir, OpenRead cp, Flock fd LockSh])
              \<and> (flock_error env fd LockSh = None \<longrightarrow>
                   fs w' = write_entries (cwd w) (snd run) cleared
                   \<and> (\<forall>m. fst run = Some m \<longrightarrow>
                         r = CallbackWith (ErrorObj m)
                         \<and> trace w' = trace w @ [RemoveTree dir, OpenRead cp, Flock fd LockSh,
                                                  Decompress cp (cwd w)])
                   \<and> (fst run = None \<longrightarrow>
                         r = CallbackWith (case flock_error env fd LockUn of
                                             Some m \<Rightarrow> ErrorObj m | None \<Rightarrow> Null)
                         \<and> trace w' = trace w @ [RemoveTree dir, OpenRead cp, Flock fd LockSh,
                                                  Decompress cp (cwd w), Flock fd LockUn]))))
       \<and> (\<forall>p. path_under (abs_path w dir) p \<longrightarrow>
             cleared p = None
             \<and> write_entries (cwd w) (snd run) cleared p =
                 write_entries (cwd w) (snd run) Map.empty p)"
proof -
  obtain w4 where w4: "fs w4 = cleared" "cwd w4 = cwd w" "fds w4 = fds w"
      "trace w4 = trace w @ [RemoveTree dir]"
    and res: "fst (extractDependencies env cfg cp w) =
         (case openSync_r cp w4 of
            (Inl e, w5) \<Rightarrow> Thrown e
          | (Inr fd, w5) \<Rightarrow>
              CallbackWith (fst (series [flock env fd LockSh, decompress env cp (cwd w5),
                                         flock env fd LockUn] w5)))"
    and same: "same_but_console
          (case openSync_r cp w4 of
            (Inl e, w5) \<Rightarrow> w5
          | (Inr fd, w5) \<Rightarrow>
              snd (series [flock env fd LockSh, decompress env cp (cwd w5),
                           flock env fd LockUn] w5))
          (snd (extractDependencies env cfg cp w))"
    using extract_eq [of w cfg env cp] unfolding dir cleared by blast
  let ?r = "fst (extractDependencies env cfg cp w)" and ?w' = "snd (extractDependencies env cfg cp w)"
  have abs4: "abs_path w4 cp = abs_path w cp"
    using w4(2) by (simp add: abs_path_def)
  have thrown: "?r = Thrown (ENOENT cp) \<and> fs ?w' = cleared
                \<and> trace ?w' = trace w @ [RemoveTree dir, OpenRead cp]"
    if "cleared (abs_path w cp) = None"
    using that res same w4 abs4 by (simp add: openSync_r_def same_but_console_def)
  let ?w5 = "add_event (OpenRead cp) (w4\<lparr>fds := fds w4 @ [cp]\<rparr>)"
  have opened: "openSync_r cp w4 = (Inr fd, ?w5)" if "cleared (abs_path w cp) \<noteq> None"
    using that w4 abs4 by (simp add: openSync_r_def fd)
  have w5: "fs ?w5 = cleared" "cwd ?w5 = cwd w" "trace ?w5 = trace w @ [RemoveTree dir, OpenRead cp]"
    using w4 by simp_all
  let ?ser = "series [flock env fd LockSh, decompress env cp (cwd w), flock env fd LockUn] ?w5"
  have res5: "?r = CallbackWith (fst ?ser)" and same5: "same_but_console (snd ?ser) ?w'"
    if "cleared (abs_path w cp) \<noteq> None"
    using res same w5(2) by (simp_all add: opened [OF that] del: series.simps)
  let ?w6 = "snd (flock env fd LockSh ?w5)"
  let ?w7 = "snd (decompress env cp (cwd w) ?w6)"
  have dec: "fst (decompress env cp (cwd w) ?w6) =
               (case fst run of Some msg \<Rightarrow> ErrorObj msg | None \<Rightarrow> Null)"
       "fs ?w7 = write_entries (cwd w) (snd run) cleared"
    using w5 by (simp_all add: decompress_result run abs_path_def)
  have tr6: "trace ?w6 = trace w @ [RemoveTree dir, OpenRead cp, Flock fd LockSh]"
    and fs6: "fs ?w6 = cleared"
    using w5 by simp_all
  have tr7: "trace ?w7 = trace w @ [RemoveTree dir, OpenRead cp, Flock fd LockSh,
                                    Decompress cp (cwd w)]"
    using tr6 by simp
  have tr8: "trace (snd (flock env fd LockUn ?w7)) =
               trace w @ [RemoveTree dir, OpenRead cp, Flock fd LockSh,
                          Decompress cp (cwd w), Flock fd LockUn]"
    and fs8: "fs (snd (flock env fd LockUn ?w7)) = write_entries (cwd w) (snd run) cleared"
    using tr7 dec(2) by simp_all
  have ser1: "?ser = flock env fd LockSh ?w5" if "flock_error env fd LockSh = Some m" for m
    using that by (subst series3) (simp add: flock_result)
  have ser2: "?ser = decompress env cp (cwd w) ?w6"
    if "flock_error env fd LockSh = None" and "fst run = Some m" for m
    using that dec(1) by (subst series3) (simp add: flock_result)
  have ser3: "fst ?ser = (case flock_error env fd LockUn of Some m \<Rightarrow> ErrorObj m | None \<Rightarrow> Null)
              \<and> snd ?ser = snd (flock env fd LockUn ?w7)"
    if "flock_error env fd LockSh = None" and "fst run = None"
    using that dec(1) by (subst series3, subst series3) (simp add: flock_result split: option.splits)
  have locked: "?r = CallbackWith (ErrorObj m) \<and> fs ?w' = cleared
                   \<and> trace ?w' = trace w @ [RemoveTree dir, OpenRead cp, Flock fd LockSh]"
    if ne: "cleared (abs_path w cp) \<noteq> None" and sh: "flock_error env fd LockSh = Some m" for m
    using res5 [OF ne] same5 [OF ne] tr6 fs6
    by (simp add: ser1 [OF sh] flock_result sh same_but_console_def del: series.simps)
  have extracted: "fs ?w' = write_entries (cwd w) (snd run) cleared
                   \<and> (\<forall>m. fst run = Some m \<longrightarrow>
                         ?r = CallbackWith (ErrorObj m)
                         \<and> trace ?w' = trace w @ [RemoveTree dir, OpenRead cp, Flock fd LockSh,
                                                  Decompress cp (cwd w)])
                   \<and> (fst run = None \<longrightarrow>
                         ?r = CallbackWith (case flock_error env fd LockUn of
                                             Some m \<Rightarrow> ErrorObj m | None \<Rightarrow> Null)
                         \<and> trace ?w' = trace w @ [RemoveTree dir, OpenRead cp, Flock fd LockSh,
                                                  Decompress cp (cwd w), Flock fd LockUn])"
    if ne: "cleared (abs_path w cp) \<noteq> None" and sh: "flock_error env fd LockSh = None"
  proof (cases "fst run")
    case None
    from ser3 [OF sh None] res5 [OF ne] same5 [OF ne] tr8 fs8 None show ?thesis
      by (simp add: same_but_console_def del: series.simps)
  next
    case (Some m)
    from ser2 [OF sh Some] res5 [OF ne] same5 [OF ne] tr7 dec Some show ?thesis
      by (simp add: same_but_console_def del: series.simps)
  qed
  have under: "cleared p = None
             \<and> write_entries (cwd w) (snd run) cleared p =
                 write_entries (cwd w) (snd run) Map.empty p"
    if "path_under (abs_path w dir) p" for p
  proof -
    have "cleared p = None"
      using that by (simp add: cleared)
    then have "cleared p = Map.empty p"
      by simp
    then have "write_entries (cwd w) (snd run) cleared p =
                 write_entries (cwd w) (snd run) Map.empty p"
      by (rule write_entries_pointwise)
    with \<open>cleared p = None\<close> show ?thesis
      by simp
  qed
  show ?thesis
    unfolding split_beta using thrown locked extracted under by blast
qed

text \<open>
  Claim C6. The archive reader first removes the tree at the install directory; every later
  call works on the cleared file system. When all goes well the file system is the cleared
  one with the entries of the archive written below the working directory, so that at every
  path under the install directory there is exactly what the archive put there, and
  nothing of what was there before. When the cache entry cannot be opened the reader
  throws; when locking or decompressing fails the callback receives the error. In each of
  these cases the install directory holds only what the decompressor had written before
  failing (nothing, if it never ran), the earlier contents are not put back, and no
  subprocess is run: the calls made are those listed.
\<close>

theorem extract_clears_then_restores:
  assumes dir: "dir = getAbsolutePath w (installDirectory cfg)"
    and cleared: "cleared = (\<lambda>p. if path_under (abs_path w dir) p then None else fs w p)"
    and run: "run = decompress_run env (cleared (abs_path w cp))"
    and fd: "fd = length (fds w)"
  shows "(case extractDependencies env cfg cp w of
           (r, w') \<Rightarrow>
             (cleared (abs_path w cp) = None \<longrightarrow>
                r = Thrown (ENOENT cp) \<and> fs w' = cleared
                \<and> trace w' = trace w @ [RemoveTree dir, OpenRead cp])
           \<and> (cleared (abs_path w cp) \<noteq> None \<longrightarrow>
                (\<forall>m. flock_error env fd LockSh = Some m \<longrightarrow>
                   r = CallbackWith (ErrorObj m) \<and> fs w' = cleared
                   \<and> trace w' = trace w @ [RemoveTree dir, OpenRead cp, Flock fd LockSh])
              \<and> (flock_error env fd LockSh = None \<longrightarrow>
                   fs w' = write_entries (cwd w) (snd run) cleared
                   \<and> (\<forall>m. fst run = Some m \<longrightarrow>
                         r = CallbackWith (ErrorObj m)
                         \<and> trace w' = trace w @ [RemoveTree dir, OpenRead cp, Flock fd LockSh,
                                                  Decompress cp (cwd w)])
                   \<and> (fst run = None \<longrightarrow>
                         r = CallbackWith (case flock_error env fd LockUn of
                                             Some m \<Rightarrow> ErrorObj m | None \<Rightarrow> Null)
                         \<and> trace w' = trace w @ [RemoveTree dir, OpenRead cp, Flock fd LockSh,
                                                  Decompress cp (cwd w), Flock fd LockUn]))))
       \<and> (\<forall>p. path_under (abs_path w dir) p \<longrightarrow>
             cleared p = None
             \<and> write_entries (cwd w) (snd run) cleared p =
                 write_entries (cwd w) (snd run) Map.empty p)"
  using assms by (rule extract_outcomes)

theorem extract_clears_then_restores_witness:
  "fs exampleCachedWorld ''/w/node_modules/old.js'' = Some (File ''OLD'')
   \<and> path_under (abs_path exampleCachedWorld
                    (getAbsolutePath exampleCachedWorld (installDirectory exampleConfig)))
         ''/w/node_modules/old.js''
   \<and> (case extractDependencies exampleEnv exampleConfig exampleCachePath exampleCachedWorld of
         (r, w') \<Rightarrow>
           r = CallbackWith Null
           \<and> fs w' ''/w/node_modules/old.js'' = None
           \<and> fs w' ''/w/node_modules/a.js'' = Some (File ''A''))
   \<and> (case extractDependencies failingDecompressEnv exampleConfig exampleCachePath
              exampleCachedWorld of
         (r, w') \<Rightarrow>
           r = CallbackWith (ErrorObj ''corrupt'')
           \<and> fs w' ''/w/node_modules/old.js'' = None
           \<and> fs w' ''/w/node_modules/a.js'' = None
           \<and> trace w' = [RemoveTree ''/w/node_modules'', OpenRead exampleCachePath,
                          Flock 0 LockSh, Decompress exampleCachePath ''/w''])"
proof -
  let ?w = exampleCachedWorld and ?cp = exampleCachePath
  let ?dir = "getAbsolutePath ?w (installDirectory exampleConfig)"
  let ?cleared = "\<lambda>p. if path_under (abs_path ?w ?dir) p then None else fs ?w p"
  have a: "fs ?w ''/w/node_modules/old.js'' = Some (File ''OLD'')"
    by code_simp
  have b: "path_under (abs_path ?w ?dir) ''/w/node_modules/old.js''"
    by code_simp
  have c: "?cleared (abs_path ?w ?cp) \<noteq> None"
    by code_simp
  have e: "flock_error exampleEnv n m = None" "flock_error failingDecompressEnv n m = None"
      "decompress_run exampleEnv x = (None, [(''node_modules'', Dir), (''node_modules/a.js'', File ''A'')])"
      "decompress_run failingDecompressEnv x = (Some ''corrupt'', [(''node_modules'', Dir)])"
      for n m x
    by (simp_all add: exampleEnv_def failingDecompressEnv_def)
  have k: "write_entries (cwd ?w) [(''node_modules'', Dir), (''node_modules/a.js'', File ''A'')]
             ?cleared ''/w/node_modules/old.js'' = None"
      "write_entries (cwd ?w) [(''node_modules'', Dir), (''node_modules/a.js'', File ''A'')]
             ?cleared ''/w/node_modules/a.js'' = Some (File ''A'')"
      "write_entries (cwd ?w) [(''node_modules'', Dir)] ?cleared ''/w/node_modules/old.js'' = None"
      "write_entries (cwd ?w) [(''node_modules'', Dir)] ?cleared ''/w/node_modules/a.js'' = None"
    by code_simp+
  have t: "trace ?w = []" "fds ?w = []" "cwd ?w = ''/w''" "?dir = ''/w/node_modules''"
    by code_simp+
  from extract_clears_then_restores [OF refl refl refl refl, where env = exampleEnv and cfg = exampleConfig and w = ?w and cp = ?cp] c
  have ok: "case extractDependencies exampleEnv exampleConfig ?cp ?w of
         (r, w') \<Rightarrow>
           r = CallbackWith Null
           \<and> fs w' ''/w/node_modules/old.js'' = None
           \<and> fs w' ''/w/node_modules/a.js'' = Some (File ''A'')"
    using k(1,2) by (simp add: split_beta e)
  from extract_clears_then_restores [OF refl refl refl refl, where env = failingDecompressEnv and cfg = exampleConfig and w = ?w and cp = ?cp] c
  have bad: "case extractDependencies failingDecompressEnv exampleConfig ?cp ?w of
         (r, w') \<Rightarrow>
           r = CallbackWith (ErrorObj ''corrupt'')
           \<and> fs w' ''/w/node_modules/old.js'' = None
           \<and> fs w' ''/w/node_modules/a.js'' = None
           \<and> trace w' = [RemoveTree ''/w/node_modules'', OpenRead ?cp,
                          Flock 0 LockSh, Decompress ?cp ''/w'']"
    using k(3,4) t by (simp add: split_beta e)
  from a b ok bad show ?thesis
    by (intro conjI)
qed


section \<open>The orchestrator on a hit: what is extracted\<close>





section \<open>The command-line task\<close>





section \<open>Locks that stay held\<close>

text \<open>
  Claim C5 says that every lock taken by the archive writer and the archive reader is
  released on every outcome. The runs below show where the source does not: when the
  compressor fails, \<^verbatim>\<open>async.series\<close> ends at the first task and the task that unlocks
  never runs, so the exclusive lock on the temporary file stays; on the writer's skip
  path \<^verbatim>\<open>callback()\<close> is returned right after \<^verbatim>\<open>flockSync\<close>; and when the
  decompressor fails the reader's shared lock stays. The last two lines are the runs
  without a failure, where the lock is released.
\<close>

theorem archive_and_extract_keep_locks:
  "locks (snd (archiveDependencies failingCompressEnv exampleConfig ''/c/npm/10.0.0''
                 exampleCachePath exampleInstalledWorld)) = [(0, LockEx)]
   \<and> fst (archiveDependencies failingCompressEnv exampleConfig ''/c/npm/10.0.0''
             exampleCachePath exampleInstalledWorld) = Str ''error tar-ing /w/node_modules: ENOSPC''
   \<and> locks (snd (archiveDependencies exampleEnv exampleConfig ''/c/npm/10.0.0''
                 exampleCachePath exampleCachedWorld)) = [(0, LockEx)]
   \<and> fst (archiveDependencies exampleEnv exampleConfig ''/c/npm/10.0.0''
             exampleCachePath exampleCachedWorld) = Undefined
   \<and> locks (snd (extractDependencies failingDecompressEnv exampleConfig exampleCachePath
                 exampleCachedWorld)) = [(0, LockSh)]
   \<and> fst (extractDependencies failingDecompressEnv exampleConfig exampleCachePath
             exampleCachedWorld) = CallbackWith (ErrorObj ''corrupt'')
   \<and> locks (snd (archiveDependencies exampleEnv exampleConfig ''/c/npm/10.0.0''
                 exampleCachePath exampleInstalledWorld)) = []
   \<and> locks (snd (extractDependencies exampleEnv exampleConfig exampleCachePath
                 exampleCachedWorld)) = []"
  by (intro conjI; code_simp)


section \<open>The cache path\<close>

lemma split_slash_not_Nil [simp]: "split_slash s \<noteq> []"
  by (induction s) (auto split: list.splits)

lemma split_slash_append:
  "split_slash (a @ CHR ''/'' # b) = split_slash a @ split_slash b"
proof (induction a)
  case Nil
  show ?case by simp
next
  case (Cons c cs)
  obtain p ps where ps: "split_slash cs = p # ps"
    by (cases "split_slash cs") simp_all
  with Cons show ?case
    by simp
qed

lemma split_slash_no_slash: "CHR ''/'' \<notin> set s \<Longrightarrow> split_slash s = [s]"
  by (induction s) auto

lemma split_slash_parts: "p \<in> set (split_slash s) \<Longrightarrow> CHR ''/'' \<notin> set p"
proof (induction s arbitrary: p)
  case Nil
  then show ?case by simp
next
  case (Cons c cs)
  obtain q qs where qs: "split_slash cs = q # qs"
    by (cases "split_slash cs") simp_all
  with Cons show ?case
    by (auto split: if_splits)
qed

lemma segments_Nil [simp]: "segments [] = []"
  by (simp add: segments_def)

lemma segments_append: "segments (a @ CHR ''/'' # b) = segments a @ segments b"
  by (simp add: segments_def split_slash_append)

lemma segments_parts: "p \<in> set (segments s) \<Longrightarrow> p \<noteq> [] \<and> CHR ''/'' \<notin> set p"
  by (auto simp: segments_def dest: split_slash_parts)

lemma segments_name: "p \<noteq> [] \<Longrightarrow> CHR ''/'' \<notin> set p \<Longrightarrow> segments p = [p]"
  by (simp add: segments_def split_slash_no_slash)

lemma segments_join:
  "\<forall>p \<in> set ps. p \<noteq> [] \<and> CHR ''/'' \<notin> set p \<Longrightarrow> segments (join_slash ps) = ps"
proof (induction ps rule: join_slash.induct)
  case 1
  show ?case by simp
next
  case (2 p)
  then show ?case by (simp add: segments_name)
next
  case (3 p q ps)
  then have "segments (join_slash (q # ps)) = q # ps"
    by simp
  moreover have "segments p = [p]"
    using 3 by (simp add: segments_name)
  ultimately show ?case
    using segments_append [of p "join_slash (q # ps)"] by simp
qed

lemma segments_after_slash:
  assumes "x = [] \<or> last x = CHR ''/''"
  shows "segments (x @ y) = segments x @ segments y"
proof (cases "x = []")
  case True
  then show ?thesis by simp
next
  case False
  with assms have "x = butlast x @ [CHR ''/'']"
    by (metis append_butlast_last_id)
  then obtain x' where x: "x = x' @ [CHR ''/'']"
    by blast
  have "segments (x @ y) = segments x' @ segments y"
    using segments_append [of x' y] by (simp add: x)
  moreover have "segments x = segments x'"
    using segments_append [of x' "[]"] by (simp add: x)
  ultimately show ?thesis
    by simp
qed

lemma normalize_up_append:
  "normalize_up (xs @ ys) u =
     (case normalize_up ys u of
        (ky, uy) \<Rightarrow> (case normalize_up xs uy of (kx, ux) \<Rightarrow> (kx @ ky, ux)))"
  by (induction xs) (auto split: prod.splits)

lemma normalize_up_shift:
  "normalize_up xs u =
     (take (length (fst (normalize_up xs 0)) - u) (fst (normalize_up xs 0)),
      snd (normalize_up xs 0) + (u - length (fst (normalize_up xs 0))))"
proof (induction xs arbitrary: u)
  case Nil
  show ?case by simp
next
  case (Cons p ps)
  obtain K1 u1 where z: "normalize_up ps 0 = (K1, u1)"
    by (cases "normalize_up ps 0")
  have s: "normalize_up ps u = (take (length K1 - u) K1, u1 + (u - length K1))"
    using Cons.IH [of u] by (simp add: z)
  show ?case
  proof (cases "p = ''.'' \<or> p = ''..''")
    case True
    then show ?thesis
      using z s by auto
  next
    case False
    show ?thesis
    proof (cases "0 < u1")
      case True
      then show ?thesis
        using z s False by auto
    next
      case u1: False
      show ?thesis
      proof (cases "u \<le> length K1")
        case True
        then have "take (Suc (length K1) - u) (p # K1) = p # take (length K1 - u) K1"
          by (simp add: Suc_diff_le)
        then show ?thesis
          using z s False u1 True by auto
      next
        case False
        then show ?thesis
          using z s \<open>\<not> (p = ''.'' \<or> p = ''..'')\<close> u1 by auto
      qed
    qed
  qed
qed

lemma normalize_up_kept_pair:
  "normalize_up xs u = (k, u') \<Longrightarrow> p \<in> set k \<Longrightarrow> p \<in> set xs \<and> p \<noteq> ''.'' \<and> p \<noteq> ''..''"
proof (induction xs arbitrary: k u')
  case Nil
  then show ?case by simp
next
  case (Cons q qs)
  obtain a b where ab: "normalize_up qs u = (a, b)"
    by (cases "normalize_up qs u")
  have ih: "p \<in> set a \<Longrightarrow> p \<in> set qs \<and> p \<noteq> ''.'' \<and> p \<noteq> ''..''"
    using Cons.IH [OF ab] by simp
  have "k = a \<or> (k = q # a \<and> q \<noteq> ''.'' \<and> q \<noteq> ''..'')"
    using Cons.prems(1) ab by (simp split: if_splits)
  with Cons.prems(2) ih show ?case
    by auto
qed

lemma normalize_up_kept:
  "p \<in> set (fst (normalize_up xs u)) \<Longrightarrow> p \<in> set xs \<and> p \<noteq> ''.'' \<and> p \<noteq> ''..''"
  using normalize_up_kept_pair [of xs u "fst (normalize_up xs u)" "snd (normalize_up xs u)" p]
  by simp

lemma normalize_up_names:
  "\<forall>p \<in> set xs. p \<noteq> ''.'' \<and> p \<noteq> ''..'' \<Longrightarrow> normalize_up xs 0 = (xs, 0)"
  by (induction xs) auto

lemma normalize_up_idem:
  "normalize_up (fst (normalize_up xs 0)) 0 = (fst (normalize_up xs 0), 0)"
  by (rule normalize_up_names) (auto dest: normalize_up_kept)

text \<open>Normalising first and then appending more parts gives what normalising all at once gives.\<close>

lemma normalize_up_prenormalized:
  "fst (normalize_up (fst (normalize_up xs 0) @ ys) 0) = fst (normalize_up (xs @ ys) 0)"
proof -
  let ?K = "fst (normalize_up xs 0)"
  obtain ky uy where y: "normalize_up ys 0 = (ky, uy)"
    by (cases "normalize_up ys 0")
  have "fst (normalize_up ?K uy) = take (length ?K - uy) ?K"
    using normalize_up_shift [of ?K uy] by (simp add: normalize_up_idem)
  moreover have "fst (normalize_up xs uy) = take (length ?K - uy) ?K"
    using normalize_up_shift [of xs uy] by simp
  ultimately show ?thesis
    by (simp add: normalize_up_append y split_beta)
qed

lemma resolve_loop_acc:
  "resolve_loop ps acc = (fst (resolve_loop ps []) @ acc, snd (resolve_loop ps []))"
proof (induction ps arbitrary: acc)
  case Nil
  show ?case by simp
next
  case (Cons p ps)
  show ?case
    using Cons.IH [of "p @ ''/'' @ acc"] Cons.IH [of "p @ ''/''"] Cons.IH [of acc]
    by simp
qed

lemma resolve_loop_absolute:
  "c \<noteq> [] \<Longrightarrow> hd c = CHR ''/'' \<Longrightarrow> snd (resolve_loop (ps @ [c]) acc)"
  by (induction ps arbitrary: acc) auto

lemma resolve_loop_slash:
  "acc = [] \<or> last acc = CHR ''/'' \<Longrightarrow>
     fst (resolve_loop ps acc) = [] \<or> last (fst (resolve_loop ps acc)) = CHR ''/''"
proof (induction ps arbitrary: acc)
  case Nil
  then show ?case by simp
next
  case (Cons p ps)
  have l: "last (p @ ''/'' @ acc) = CHR ''/''"
    using Cons.prems by (cases "acc = []") simp_all
  show ?case
  proof (cases "p = []")
    case True
    then show ?thesis
      using Cons.IH [OF Cons.prems] by simp
  next
    case False
    show ?thesis
    proof (cases "hd p = CHR ''/''")
      case True
      with False l show ?thesis
        by (simp del: last_append)
    next
      case h: False
      have "p @ ''/'' @ acc = [] \<or> last (p @ ''/'' @ acc) = CHR ''/''"
        using l by blast
      from Cons.IH [OF this] False h show ?thesis
        by simp
    qed
  qed
qed

lemma path_resolve_absolute_form:
  assumes "c \<noteq> []" and "hd c = CHR ''/''"
  shows "path_resolve c xs =
           ''/'' @ join_slash (fst (normalize_up (segments (fst (resolve_loop (rev xs @ [c]) []))) 0))"
  using resolve_loop_absolute [OF assms, of "rev xs" "[]"]
  by (simp add: path_resolve_def normalizeArray_def segments_def split_beta Let_def)

lemma segments_of_normalized:
  "segments (''/'' @ join_slash (fst (normalize_up (segments s) 0))) = fst (normalize_up (segments s) 0)"
proof -
  let ?K = "fst (normalize_up (segments s) 0)"
  have "\<forall>p \<in> set ?K. p \<noteq> [] \<and> CHR ''/'' \<notin> set p"
    using normalize_up_kept [of _ "segments s" 0] segments_parts [of _ s] by blast
  then have "segments (join_slash ?K) = ?K"
    by (rule segments_join)
  then show ?thesis
    using segments_append [of "[]" "join_slash ?K"] by simp
qed

lemma path_resolve_flatten:
  assumes c: "c \<noteq> []" "hd c = CHR ''/''" and d: "d \<noteq> []"
  shows "path_resolve c [path_resolve c xs, d] = path_resolve c (xs @ [d])"
proof (cases "hd d = CHR ''/''")
  case True
  with d show ?thesis
    by (simp add: path_resolve_def)
next
  case False
  let ?P = "fst (resolve_loop (rev xs @ [c]) [])"
  let ?K = "fst (normalize_up (segments ?P) 0)"
  let ?R = "''/'' @ join_slash ?K"
  have inner: "path_resolve c xs = ?R"
    using c by (rule path_resolve_absolute_form)
  have l: "fst (resolve_loop (rev [?R, d] @ [c]) []) = ?R @ ''/'' @ d @ ''/''"
    using d False by simp
  have r: "fst (resolve_loop (rev (xs @ [d]) @ [c]) []) = ?P @ d @ ''/''"
    using d False resolve_loop_acc [of "rev xs @ [c]" "d @ ''/''"] by simp
  have sl: "segments (?R @ ''/'' @ d @ ''/'') = ?K @ segments (d @ ''/'')"
    using segments_append [of ?R "d @ ''/''"] segments_of_normalized [of ?P] by simp
  have "?P = [] \<or> last ?P = CHR ''/''"
    using resolve_loop_slash [of "[]" "rev xs @ [c]"] by simp
  then have sr: "segments (?P @ d @ ''/'') = segments ?P @ segments (d @ ''/'')"
    by (rule segments_after_slash)
  have "fst (normalize_up (?K @ segments (d @ ''/'')) 0) =
          fst (normalize_up (segments ?P @ segments (d @ ''/'')) 0)"
    by (rule normalize_up_prenormalized)
  then have "path_resolve c [?R, d] = path_resolve c (xs @ [d])"
    using path_resolve_absolute_form [OF c, of "[?R, d]"]
      path_resolve_absolute_form [OF c, of "xs @ [d]"]
    by (simp only: l r sl sr)
  then show ?thesis
    by (simp only: inner)
qed

lemma join_slash_Cons_char: "join_slash ((c # p) # ps) = c # join_slash (p # ps)"
  by (cases ps) simp_all

lemma join_split_slash: "join_slash (split_slash s) = s"
proof (induction s)
  case Nil
  show ?case by simp
next
  case (Cons c cs)
  obtain p ps where ps: "split_slash cs = p # ps"
    by (cases "split_slash cs") simp_all
  with Cons show ?case
    by (simp add: join_slash_Cons_char)
qed

lemma join_slash_snoc: "xs \<noteq> [] \<Longrightarrow> join_slash (xs @ [n]) = join_slash xs @ ''/'' @ n"
  by (induction xs rule: join_slash.induct) simp_all

lemma plain_name_hd: "plain_name n \<Longrightarrow> n \<noteq> [] \<and> hd n \<noteq> CHR ''/''"
  by (cases n) (auto simp: plain_name_def)

lemma segments_plain: "list_all plain_name ps \<Longrightarrow> filter (\<lambda>p. p \<noteq> []) ps = ps"
  by (induction ps) (auto simp: plain_name_def)

lemma path_resolve_name:
  assumes a: "normalized_absolute a" and n: "plain_name n"
  shows "path_resolve c [a, n] = a @ ''/'' @ n" and "normalized_absolute (a @ ''/'' @ n)"
proof -
  obtain rest where rest: "a = CHR ''/'' # rest" "rest \<noteq> []" "list_all plain_name (split_slash rest)"
    using a by (auto simp: normalized_absolute_def split: list.splits)
  let ?ps = "split_slash rest"
  have n': "n \<noteq> []" "hd n \<noteq> CHR ''/''" "CHR ''/'' \<notin> set n"
    using n plain_name_hd [of n] by (simp_all add: plain_name_def)
  have loop: "resolve_loop (rev [a, n] @ [c]) [] = (a @ ''/'' @ n @ ''/'', True)"
    using n' by (simp add: rest)
  have sa: "segments a = ?ps"
    using segments_append [of "[]" rest] segments_plain [OF rest(3)]
    by (simp add: rest(1) segments_def)
  have sn: "segments (n @ ''/'') = [n]"
    using segments_append [of n "[]"] n' by (simp add: segments_name)
  have seg: "segments (a @ ''/'' @ n @ ''/'') = ?ps @ [n]"
    using segments_append [of a "n @ ''/''"] sa sn by simp
  have names: "\<forall>p \<in> set (?ps @ [n]). p \<noteq> ''.'' \<and> p \<noteq> ''..''"
    using rest(3) n by (auto simp: list_all_iff plain_name_def)
  have norm: "normalize_up (?ps @ [n]) 0 = (?ps @ [n], 0)"
    using names by (rule normalize_up_names)
  have "join_slash (?ps @ [n]) = rest @ ''/'' @ n"
    by (simp add: join_slash_snoc join_split_slash)
  then show "path_resolve c [a, n] = a @ ''/'' @ n"
    using loop seg norm
    by (simp add: path_resolve_def normalizeArray_def segments_def rest(1))
  have "split_slash (rest @ ''/'' @ n) = ?ps @ [n]"
    using split_slash_append [of rest n] n' by (simp add: split_slash_no_slash)
  then show "normalized_absolute (a @ ''/'' @ n)"
    using rest n by (simp add: normalized_absolute_def)
qed

lemma plain_archive_name:
  assumes "CHR ''/'' \<notin> set h"
  shows "plain_name (h @ ''.tar.gz'')"
proof -
  have "length (h @ ''.tar.gz'') \<noteq> length ''.''" "length (h @ ''.tar.gz'') \<noteq> length ''..''"
    by simp_all
  then have "h @ ''.tar.gz'' \<noteq> ''.''" "h @ ''.tar.gz'' \<noteq> ''..''"
    by (metis, metis)
  with assms show ?thesis
    by (simp add: plain_name_def)
qed

lemma join_slash_Cons:
  "join_slash (p # ps) = (if ps = [] then p else p @ ''/'' @ join_slash ps)"
  by (cases ps) simp_all

lemma join_slash_last:
  "ks \<noteq> [] \<Longrightarrow> join_slash (butlast ks @ [last ks @ s]) = join_slash ks @ s"
proof (induction ks)
  case Nil
  then show ?case by simp
next
  case (Cons k ks)
  show ?case
  proof (cases "ks = []")
    case True
    then show ?thesis by simp
  next
    case False
    then have "join_slash (butlast ks @ [last ks @ s]) = join_slash ks @ s"
      by (rule Cons.IH)
    with False show ?thesis
      by (simp add: join_slash_Cons)
  qed
qed

lemma path_resolve_idem:
  assumes c: "c \<noteq> []" "hd c = CHR ''/''"
  shows "path_resolve c [path_resolve c xs] = path_resolve c xs"
proof -
  let ?P = "fst (resolve_loop (rev xs @ [c]) [])"
  let ?K = "fst (normalize_up (segments ?P) 0)"
  let ?R = "''/'' @ join_slash ?K"
  have inner: "path_resolve c xs = ?R"
    using c by (rule path_resolve_absolute_form)
  have "segments (?R @ ''/'') = ?K"
    using segments_append [of ?R "[]"] segments_of_normalized [of ?P] by simp
  then have "path_resolve c [?R] = ?R"
    using path_resolve_absolute_form [OF c, of "[?R]"] normalize_up_idem [of "segments ?P"]
    by simp
  then show ?thesis
    by (simp only: inner)
qed

lemma path_resolve_tilde:
  assumes c: "c \<noteq> []" "hd c = CHR ''/''"
  shows "path_resolve c [path_resolve c xs @ ''~''] = path_resolve c xs @ ''~''"
proof -
  let ?P = "fst (resolve_loop (rev xs @ [c]) [])"
  let ?K = "fst (normalize_up (segments ?P) 0)"
  let ?R = "''/'' @ join_slash ?K"
  let ?K' = "if ?K = [] then [''~''] else butlast ?K @ [last ?K @ ''~'']"
  have inner: "path_resolve c xs = ?R"
    using c by (rule path_resolve_absolute_form)
  have K: "\<forall>p \<in> set ?K. p \<noteq> [] \<and> CHR ''/'' \<notin> set p \<and> p \<noteq> ''.'' \<and> p \<noteq> ''..''"
    using normalize_up_kept [of _ "segments ?P" 0] segments_parts [of _ ?P] by blast
  have j: "join_slash ?K' = join_slash ?K @ ''~''"
    by (simp add: join_slash_last)
  have K': "\<forall>p \<in> set ?K'. p \<noteq> [] \<and> CHR ''/'' \<notin> set p \<and> p \<noteq> ''.'' \<and> p \<noteq> ''..''"
  proof (cases "?K = []")
    case True
    then show ?thesis by simp
  next
    case False
    then have "last ?K \<in> set ?K" and "set (butlast ?K) \<subseteq> set ?K"
      by (simp_all add: in_set_butlastD subsetI)
    with K False show ?thesis
      by (auto simp: append_eq_Cons_conv)
  qed
  then have s: "segments (join_slash ?K') = ?K'"
    by (intro segments_join) blast
  have "segments (?R @ ''~'' @ ''/'') = segments (join_slash ?K')"
    using segments_append [of "?R @ ''~''" "[]"] segments_append [of "[]" "join_slash ?K @ ''~''"]
    by (simp only: j) simp
  with s have seg: "segments (?R @ ''~'' @ ''/'') = ?K'"
    by simp
  have n: "normalize_up ?K' 0 = (?K', 0)"
    using K' by (intro normalize_up_names) blast
  have "path_resolve c [?R @ ''~''] = ''/'' @ join_slash ?K'"
    using path_resolve_absolute_form [OF c, of "[?R @ ''~'']"] seg n by simp
  then have "path_resolve c [?R @ ''~''] = ?R @ ''~''"
    by (simp only: j) simp
  then show ?thesis
    by (simp only: inner)
qed

text \<open>
  The temporary path of the archive writer and the cache path are different files whenever
  the cache path is the one \<^verbatim>\<open>loadDependencies\<close> computes.
\<close>

lemma resolved_tmp_differs:
  assumes "cwd w \<noteq> []" and "hd (cwd w) = CHR ''/''"
  shows "abs_path w (resolveCachePath cfg w @ ''~'') \<noteq> abs_path w (resolveCachePath cfg w)"
proof -
  have "\<exists>xs. resolveCachePath cfg w = path_resolve (cwd w) xs"
    by (auto simp: resolveCachePath_def Let_def)
  then obtain xs where xs: "resolveCachePath cfg w = path_resolve (cwd w) xs"
    by blast
  show ?thesis
    using path_resolve_idem [OF assms, of xs] path_resolve_tilde [OF assms, of xs]
    by (simp add: abs_path_def xs)
qed

text \<open>
  Claim C1. The cache path that \<^verbatim>\<open>loadDependencies\<close> computes in two steps is the
  path \<^verbatim>\<open>path.resolve\<close> makes of the four parts cache directory, tool name, tool
  version and hash with \<open>.tar.gz\<close> appended. It depends on the config through these four
  only: two configs that agree on them resolve to the same cache path. When the cache
  directory is a normalised absolute path, the tool name and version are plain names and
  the hash holds no separator, the cache path is, letter for letter, the four parts with
  a separator between them. The working directory is absolute, as \<^verbatim>\<open>process.cwd()\<close> is.
\<close>

theorem cache_path_layout:
  assumes "cwd w \<noteq> []" and "hd (cwd w) = CHR ''/''"
  shows "resolveCachePath cfg w =
           path_resolve (cwd w)
             [cacheDirectory cfg, cliName cfg, getCliVersion cfg (),
              getFileHash cfg (configPath cfg) @ ''.tar.gz'']
       \<and> (\<forall>cfg'. cacheDirectory cfg' = cacheDirectory cfg \<and> cliName cfg' = cliName cfg
              \<and> getCliVersion cfg' () = getCliVersion cfg ()
              \<and> getFileHash cfg' (configPath cfg') = getFileHash cfg (configPath cfg) \<longrightarrow>
              resolveCachePath cfg' w = resolveCachePath cfg w)
       \<and> (normalized_absolute (cacheDirectory cfg) \<and> plain_name (cliName cfg)
            \<and> plain_name (getCliVersion cfg ())
            \<and> CHR ''/'' \<notin> set (getFileHash cfg (configPath cfg)) \<longrightarrow>
            resolveCachePath cfg w =
              cacheDirectory cfg @ ''/'' @ cliName cfg @ ''/'' @ getCliVersion cfg () @ ''/''
              @ getFileHash cfg (configPath cfg) @ ''.tar.gz'')"
proof -
  let ?d = "cacheDirectory cfg" and ?n = "cliName cfg" and ?v = "getCliVersion cfg ()"
  let ?h = "getFileHash cfg (configPath cfg)"
  have flat: "resolveCachePath cfg w = path_resolve (cwd w) [?d, ?n, ?v, ?h @ ''.tar.gz'']"
    using path_resolve_flatten [OF assms, of "?h @ ''.tar.gz''" "[?d, ?n, ?v]"]
    by (simp add: resolveCachePath_def resolveCacheDirectory_def)
  have det: "resolveCachePath cfg' w = resolveCachePath cfg w"
    if "cacheDirectory cfg' = ?d \<and> cliName cfg' = ?n \<and> getCliVersion cfg' () = ?v
        \<and> getFileHash cfg' (configPath cfg') = ?h" for cfg'
    using that by (simp add: resolveCachePath_def resolveCacheDirectory_def)
  have lit: "resolveCachePath cfg w = ?d @ ''/'' @ ?n @ ''/'' @ ?v @ ''/'' @ ?h @ ''.tar.gz''"
    if wf: "normalized_absolute ?d \<and> plain_name ?n \<and> plain_name ?v \<and> CHR ''/'' \<notin> set ?h"
  proof -
    from wf have wd: "normalized_absolute ?d" and wn: "plain_name ?n" and wv: "plain_name ?v"
      and wh: "CHR ''/'' \<notin> set ?h"
      by simp_all
    note r1 = path_resolve_name(1) [OF wd wn, of "cwd w"]
    note n1 = path_resolve_name(2) [OF wd wn]
    note r2 = path_resolve_name(1) [OF n1 wv, of "cwd w"]
    note n2 = path_resolve_name(2) [OF n1 wv]
    have wa: "plain_name (?h @ ''.tar.gz'')"
      using wh by (rule plain_archive_name)
    note r3 = path_resolve_name(1) [OF n2 wa, of "cwd w"]
    have "?v \<noteq> []"
      using wv by (simp add: plain_name_def)
    then have "path_resolve (cwd w) [?d, ?n, ?v] =
                 path_resolve (cwd w) [path_resolve (cwd w) [?d, ?n], ?v]"
      using path_resolve_flatten [OF assms, of ?v "[?d, ?n]"] by simp
    then have "resolveCacheDirectory cfg w = (?d @ ''/'' @ ?n) @ ''/'' @ ?v"
      by (simp only: resolveCacheDirectory_def r1 r2)
    then have "resolveCachePath cfg w = ((?d @ ''/'' @ ?n) @ ''/'' @ ?v) @ ''/'' @ ?h @ ''.tar.gz''"
      by (simp only: resolveCachePath_def Let_def r3)
    then show ?thesis
      by simp
  qed
  from flat det lit show ?thesis
    by blast
qed

theorem cache_path_layout_witness:
  "cwd exampleWorld \<noteq> [] \<and> hd (cwd exampleWorld) = CHR ''/''
   \<and> normalized_absolute (cacheDirectory exampleConfig) \<and> plain_name (cliName exampleConfig)
   \<and> plain_name (getCliVersion exampleConfig ())
   \<and> CHR ''/'' \<notin> set (getFileHash exampleConfig (configPath exampleConfig))
   \<and> resolveCachePath exampleConfig exampleWorld = ''/c/npm/10.0.0/abc123.tar.gz''
   \<and> resolveCachePath exampleOtherConfig exampleWorld = resolveCachePath exampleConfig exampleWorld
   \<and> resolveCachePath (exampleConfig\<lparr>cacheDirectory := ''cache/../pkgs/''\<rparr>) exampleWorld =
       path_resolve ''/w'' [''cache/../pkgs/'', ''npm'', ''10.0.0'', ''abc123.tar.gz'']
   \<and> path_resolve ''/w'' [''cache/../pkgs/'', ''npm'', ''10.0.0'', ''abc123.tar.gz''] =
       ''/w/pkgs/npm/10.0.0/abc123.tar.gz''"
proof -
  have a: "cwd exampleWorld \<noteq> []" "hd (cwd exampleWorld) = CHR ''/''"
    by (simp_all add: exampleWorld_def)
  have b: "normalized_absolute (cacheDirectory exampleConfig)" "plain_name (cliName exampleConfig)"
      "plain_name (getCliVersion exampleConfig ())"
      "CHR ''/'' \<notin> set (getFileHash exampleConfig (configPath exampleConfig))"
    by code_simp+
  have c: "cacheDirectory exampleOtherConfig = cacheDirectory exampleConfig"
      "cliName exampleOtherConfig = cliName exampleConfig"
      "getCliVersion exampleOtherConfig () = getCliVersion exampleConfig ()"
      "getFileHash exampleOtherConfig (configPath exampleOtherConfig) =
         getFileHash exampleConfig (configPath exampleConfig)"
    by (simp_all add: exampleOtherConfig_def exampleConfig_def)
  have d: "cacheDirectory exampleConfig = ''/c''" "cliName exampleConfig = ''npm''"
      "getCliVersion exampleConfig () = ''10.0.0''"
      "getFileHash exampleConfig (configPath exampleConfig) = ''abc123''"
      "cwd exampleWorld = ''/w''"
    by (simp_all add: exampleConfig_def exampleWorld_def)
  have e: "path_resolve ''/w'' [''cache/../pkgs/'', ''npm'', ''10.0.0'', ''abc123.tar.gz''] =
       ''/w/pkgs/npm/10.0.0/abc123.tar.gz''"
    by code_simp
  note t = cache_path_layout [OF a, of exampleConfig]
  from t have "normalized_absolute (cacheDirectory exampleConfig) \<and> plain_name (cliName exampleConfig)
            \<and> plain_name (getCliVersion exampleConfig ())
            \<and> CHR ''/'' \<notin> set (getFileHash exampleConfig (configPath exampleConfig)) \<longrightarrow>
            resolveCachePath exampleConfig exampleWorld =
              cacheDirectory exampleConfig @ ''/'' @ cliName exampleConfig @ ''/''
              @ getCliVersion exampleConfig () @ ''/''
              @ getFileHash exampleConfig (configPath exampleConfig) @ ''.tar.gz''"
    by blast
  with b have "resolveCachePath exampleConfig exampleWorld =
              cacheDirectory exampleConfig @ ''/'' @ cliName exampleConfig @ ''/''
              @ getCliVersion exampleConfig () @ ''/''
              @ getFileHash exampleConfig (configPath exampleConfig) @ ''.tar.gz''"
    by blast
  then have lit: "resolveCachePath exampleConfig exampleWorld = ''/c/npm/10.0.0/abc123.tar.gz''"
    by (simp add: d)
  from t c have det: "resolveCachePath exampleOtherConfig exampleWorld =
                        resolveCachePath exampleConfig exampleWorld"
    by blast
  from cache_path_layout [OF a, of "exampleConfig\<lparr>cacheDirectory := ''cache/../pkgs/''\<rparr>"]
  have "resolveCachePath (exampleConfig\<lparr>cacheDirectory := ''cache/../pkgs/''\<rparr>) exampleWorld =
          path_resolve (cwd exampleWorld)
            [cacheDirectory (exampleConfig\<lparr>cacheDirectory := ''cache/../pkgs/''\<rparr>),
             cliName (exampleConfig\<lparr>cacheDirectory := ''cache/../pkgs/''\<rparr>),
             getCliVersion (exampleConfig\<lparr>cacheDirectory := ''cache/../pkgs/''\<rparr>) (),
             getFileHash (exampleConfig\<lparr>cacheDirectory := ''cache/../pkgs/''\<rparr>)
               (configPath (exampleConfig\<lparr>cacheDirectory := ''cache/../pkgs/''\<rparr>)) @ ''.tar.gz'']"
    by blast
  then have flat: "resolveCachePath (exampleConfig\<lparr>cacheDirectory := ''cache/../pkgs/''\<rparr>) exampleWorld =
       path_resolve ''/w'' [''cache/../pkgs/'', ''npm'', ''10.0.0'', ''abc123.tar.gz'']"
    by (simp add: exampleConfig_def exampleWorld_def)
  from a b lit det flat e show ?thesis
    by (intro conjI)
qed

end
